theory Spec2Isabelle
  imports Main
begin

section \<open>Strings and paths\<close>

text \<open>
  File names and file contents are ASCII text, one \<^typ>\<open>char\<close> per character, with
  possibly some bytes that do not decode as UTF-8: a \<^typ>\<open>char\<close> from 0x80 on stands
  for such a byte. In a file name Python keeps it as a lone surrogate, which no output
  stream encodes; in a content read as text with \<^verbatim>\<open>errors="ignore"\<close> it is dropped.
  On such strings Python's \<^verbatim>\<open>str.upper\<close>, \<^verbatim>\<open>str.lower\<close> and \<^verbatim>\<open>bytes.lower\<close> change the
  letters a-z and A-Z only, and a slice counts characters. Characters that UTF-8 encodes
  in several bytes are outside this model.
\<close>

definition is_ascii :: "char \<Rightarrow> bool" where
  "is_ascii c \<longleftrightarrow> \<not> digit7 c"

text \<open>A string that a strict output stream can encode: no lone surrogate.\<close>

definition encodable :: "string \<Rightarrow> bool" where
  "encodable s = list_all is_ascii s"

definition lower_letters :: string where
  "lower_letters = ''abcdefghijklmnopqrstuvwxyz''"

definition upper_letters :: string where
  "upper_letters = ''ABCDEFGHIJKLMNOPQRSTUVWXYZ''"

definition upper_char :: "char \<Rightarrow> char" where
  "upper_char c = (case map_of (zip lower_letters upper_letters) c of Some u \<Rightarrow> u | None \<Rightarrow> c)"

definition lower_char :: "char \<Rightarrow> char" where
  "lower_char c = (case map_of (zip upper_letters lower_letters) c of Some l \<Rightarrow> l | None \<Rightarrow> c)"

definition upper :: "string \<Rightarrow> string" where
  "upper s = map upper_char s"

definition lower :: "string \<Rightarrow> string" where
  "lower s = map lower_char s"

text \<open>\<^verbatim>\<open>s.startswith(p)\<close>.\<close>

definition startswith :: "string \<Rightarrow> string \<Rightarrow> bool" where
  "startswith s p = (take (length p) s = p)"

text \<open>\<^verbatim>\<open>needle in hay\<close> on strings: the needle occurs as a contiguous substring.\<close>

fun str_in :: "string \<Rightarrow> string \<Rightarrow> bool" where
  "str_in needle [] = (needle = [])"
| "str_in needle (c # cs) = (startswith (c # cs) needle \<or> str_in needle cs)"

text \<open>
  A path is the list of its components. \<^verbatim>\<open>PurePath.suffix\<close> and \<^verbatim>\<open>PurePath.stem\<close>
  (pathlib of CPython 3.8 to 3.12) look for the last dot of the final component:
  with \<^verbatim>\<open>i = name.rfind('.')\<close>, the suffix is \<^verbatim>\<open>name[i:]\<close> and the stem
  \<^verbatim>\<open>name[:i]\<close> when \<^verbatim>\<open>0 < i < len(name) - 1\<close>, otherwise the suffix is empty and the
  stem is the whole name.
\<close>

type_synonym path = "string list"

definition path_name :: "path \<Rightarrow> string" where
  "path_name p = (if p = [] then [] else last p)"

definition after_last_dot :: "string \<Rightarrow> string" where
  "after_last_dot nm = rev (takeWhile (\<lambda>c. c \<noteq> CHR ''.'') (rev nm))"

definition has_suffix :: "string \<Rightarrow> bool" where
  "has_suffix nm \<longleftrightarrow>
     CHR ''.'' \<in> set nm \<and> after_last_dot nm \<noteq> [] \<and> Suc (length (after_last_dot nm)) < length nm"

definition suffix_of :: "string \<Rightarrow> string" where
  "suffix_of nm = (if has_suffix nm then CHR ''.'' # after_last_dot nm else [])"

definition stem_of :: "string \<Rightarrow> string" where
  "stem_of nm =
     (if has_suffix nm then take (length nm - Suc (length (after_last_dot nm))) nm else nm)"

text \<open>\<^verbatim>\<open>str(p)\<close> of a relative path: the components joined by a slash.\<close>

fun path_str :: "path \<Rightarrow> string" where
  "path_str [] = ''.''"
| "path_str [c] = c"
| "path_str (c # cs) = c @ ''/'' @ path_str cs"

section \<open>The file system\<close>

text \<open>
  A regular file carries its read permission and its content; a directory its read
  permission (may it be listed), its search permission (may its entries be reached) and
  its entries in listing order. \<open>Special\<close> is anything else (a socket, a dangling link).
\<close>

datatype node =
    File bool string
  | Dir bool bool "(string \<times> node) list"
  | Special

datatype error =
    PermissionError | NotADirectoryError | FileNotFoundError | IsADirectoryError
  | UnicodeEncodeError

datatype stat_result = Found node | Missing | Denied

text \<open>
  Resolving a path below the root: every directory on the way must be searchable
  (otherwise the system call fails with EACCES), a missing name or a non-directory on the
  way gives ENOENT or ENOTDIR.
\<close>

fun stat :: "node \<Rightarrow> path \<Rightarrow> stat_result" where
  "stat n [] = Found n"
| "stat (Dir r x es) (c # cs) =
     (if \<not> x then Denied
      else case map_of es c of None \<Rightarrow> Missing | Some m \<Rightarrow> stat m cs)"
| "stat (File r s) (c # cs) = Missing"
| "stat Special (c # cs) = Missing"

text \<open>
  \<^verbatim>\<open>Path.is_file\<close> and \<^verbatim>\<open>Path.is_dir\<close> (CPython 3.8 to 3.12) answer False on ENOENT and
  ENOTDIR and re-raise every other error of \<^verbatim>\<open>stat\<close>: EACCES arrives as PermissionError.
\<close>

definition is_file :: "node \<Rightarrow> path \<Rightarrow> error + bool" where
  "is_file t p =
     (case stat t p of
        Denied \<Rightarrow> Inl PermissionError
      | Missing \<Rightarrow> Inr False
      | Found n \<Rightarrow> (case n of File r s \<Rightarrow> Inr True | _ \<Rightarrow> Inr False))"

definition is_dir :: "node \<Rightarrow> path \<Rightarrow> error + bool" where
  "is_dir t p =
     (case stat t p of
        Denied \<Rightarrow> Inl PermissionError
      | Missing \<Rightarrow> Inr False
      | Found n \<Rightarrow> (case n of Dir r x es \<Rightarrow> Inr True | _ \<Rightarrow> Inr False))"

text \<open>\<^verbatim>\<open>Path.iterdir\<close>: the names of a directory, which must be readable.\<close>

definition iterdir :: "node \<Rightarrow> path \<Rightarrow> error + string list" where
  "iterdir t p =
     (case stat t p of
        Denied \<Rightarrow> Inl PermissionError
      | Missing \<Rightarrow> Inl FileNotFoundError
      | Found n \<Rightarrow>
          (case n of
             Dir r x es \<Rightarrow> if r then Inr (map fst es) else Inl PermissionError
           | _ \<Rightarrow> Inl NotADirectoryError))"

text \<open>
  Opening and reading a file: the bytes of a readable regular file; every failure is an
  \<^verbatim>\<open>OSError\<close>.
\<close>

definition read_file :: "node \<Rightarrow> path \<Rightarrow> error + string" where
  "read_file t p =
     (case stat t p of
        Denied \<Rightarrow> Inl PermissionError
      | Missing \<Rightarrow> Inl FileNotFoundError
      | Found n \<Rightarrow>
          (case n of
             File r s \<Rightarrow> if r then Inr s else Inl PermissionError
           | Dir r x es \<Rightarrow> Inl IsADirectoryError
           | Special \<Rightarrow> Inl FileNotFoundError))"

text \<open>\<^verbatim>\<open>Path.read_bytes\<close> returns the bytes as they are.\<close>

definition read_bytes :: "node \<Rightarrow> path \<Rightarrow> error + string" where
  "read_bytes t p = read_file t p"

text \<open>
  \<^verbatim>\<open>Path.read_text(encoding="utf-8", errors="ignore")\<close> drops the bytes that do not
  decode and then, reading in text mode, turns every CR LF and every lone CR into LF.
\<close>

fun universal_newlines :: "string \<Rightarrow> string" where
  "universal_newlines [] = []"
| "universal_newlines [c] = (if c = CHR 0x0D then [CHR 0x0A] else [c])"
| "universal_newlines (c # d # cs) =
     (if c = CHR 0x0D then
        (if d = CHR 0x0A then CHR 0x0A # universal_newlines cs
         else CHR 0x0A # universal_newlines (d # cs))
      else c # universal_newlines (d # cs))"

definition decode_ignore :: "string \<Rightarrow> string" where
  "decode_ignore bs = filter is_ascii bs"

definition read_text :: "node \<Rightarrow> path \<Rightarrow> error + string" where
  "read_text t p =
     (case read_file t p of
        Inl e \<Rightarrow> Inl e
      | Inr bs \<Rightarrow> Inr (universal_newlines (decode_ignore bs)))"

text \<open>
  \<^verbatim>\<open>root.rglob("*")\<close> (CPython 3.8 to 3.12): the directories below the root are visited
  in pre-order; of each visited directory all entries are yielded, in listing order. A
  directory that cannot be scanned (it is not readable, or a directory above it is not
  searchable) yields nothing: pathlib swallows the PermissionError of \<^verbatim>\<open>scandir\<close>.
  The paths are relative to the root. Two things are outside this model: symbolic links
  (every entry is the file or directory itself), and trees nested deeper than the
  interpreter's recursion limit, on which the iteration would end in RecursionError.
\<close>

fun rglob :: "path \<Rightarrow> node \<Rightarrow> path list"
  and rglob_subdirs :: "path \<Rightarrow> (string \<times> node) list \<Rightarrow> path list" where
  "rglob pre (Dir r x es) =
     (if r then map (\<lambda>e. pre @ [fst e]) es @ (if x then rglob_subdirs pre es else []) else [])"
| "rglob pre (File r s) = []"
| "rglob pre Special = []"
| "rglob_subdirs pre [] = []"
| "rglob_subdirs pre ((n, m) # es) = rglob (pre @ [n]) m @ rglob_subdirs pre es"

section \<open>The repository walker\<close>

text \<open>
  A repository is the tree below its root together with the components of the root's own
  path: \<^verbatim>\<open>p.parts\<close> of a path found below the root starts with them.
\<close>

record repo =
  root_parts :: "string list"
  tree :: node

definition IGNORED_DIRS :: "string list" where
  "IGNORED_DIRS = [''.git'', ''node_modules'', ''bin'', ''obj'', ''dist'', ''build'', ''.venv'']"

definition parts :: "repo \<Rightarrow> path \<Rightarrow> string list" where
  "parts r rel = root_parts r @ rel"

text \<open>
  The loop of \<open>walk_repo\<close> over the paths that \<^verbatim>\<open>rglob\<close> still has to yield. The
  \<^verbatim>\<open>try\<close> encloses the whole loop: a PermissionError ends it, and the function returns
  the paths appended so far.
\<close>

fun walk_loop :: "repo \<Rightarrow> path list \<Rightarrow> path list \<Rightarrow> error + path list" where
  "walk_loop r [] paths = Inr paths"
| "walk_loop r (p # ps) paths =
     (case is_file (tree r) p of
        Inl e \<Rightarrow> if e = PermissionError then Inr paths else Inl e
      | Inr f \<Rightarrow>
          if \<not> f then walk_loop r ps paths
          else if list_ex (\<lambda>part. part \<in> set (parts r p)) IGNORED_DIRS then walk_loop r ps paths
          else walk_loop r ps (paths @ [p]))"

definition walk_repo :: "repo \<Rightarrow> error + path list" where
  "walk_repo r = walk_loop r (rglob [] (tree r)) []"

section \<open>The checks\<close>

datatype CheckResult =
  CheckResult (id_str: string) (name: string) (weight: int) (passed: bool) (evidence: string)

subsection \<open>readme, license, codeowners\<close>

fun check_readme_loop :: "node \<Rightarrow> string list \<Rightarrow> error + CheckResult" where
  "check_readme_loop t [] = Inr (CheckResult ''readme'' ''README existe'' 10 False [])"
| "check_readme_loop t (p # ps) =
     (case is_file t [p] of
        Inl e \<Rightarrow> Inl e
      | Inr f \<Rightarrow>
          if \<not> f then check_readme_loop t ps
          else if upper p = ''README.MD'' \<or> (startswith (upper p) ''README.'' \<and> length (upper p) > 7)
          then Inr (CheckResult ''readme'' ''README existe'' 10 True p)
          else check_readme_loop t ps)"

definition check_readme :: "repo \<Rightarrow> error + CheckResult" where
  "check_readme r =
     (case iterdir (tree r) [] of
        Inl e \<Rightarrow> Inl e
      | Inr names \<Rightarrow> check_readme_loop (tree r) names)"

fun check_license_loop :: "node \<Rightarrow> string list \<Rightarrow> error + CheckResult" where
  "check_license_loop t [] = Inr (CheckResult ''license'' ''LICENSE existe'' 5 False [])"
| "check_license_loop t (p # ps) =
     (case is_file t [p] of
        Inl e \<Rightarrow> Inl e
      | Inr f \<Rightarrow>
          if f \<and> startswith (upper p) ''LICENSE''
          then Inr (CheckResult ''license'' ''LICENSE existe'' 5 True p)
          else check_license_loop t ps)"

definition check_license :: "repo \<Rightarrow> error + CheckResult" where
  "check_license r =
     (case iterdir (tree r) [] of
        Inl e \<Rightarrow> Inl e
      | Inr names \<Rightarrow> check_license_loop (tree r) names)"

fun check_codeowners_loop :: "node \<Rightarrow> path list \<Rightarrow> error + CheckResult" where
  "check_codeowners_loop t [] = Inr (CheckResult ''codeowners'' ''CODEOWNERS existe'' 10 False [])"
| "check_codeowners_loop t (p # ps) =
     (case is_file t p of
        Inl e \<Rightarrow> Inl e
      | Inr f \<Rightarrow>
          if f then Inr (CheckResult ''codeowners'' ''CODEOWNERS existe'' 10 True (path_str p))
          else check_codeowners_loop t ps)"

definition check_codeowners :: "repo \<Rightarrow> error + CheckResult" where
  "check_codeowners r =
     check_codeowners_loop (tree r) [[''.github'', ''CODEOWNERS''], [''CODEOWNERS'']]"

subsection \<open>ci\<close>

text \<open>
  The loop over the entries of \<^verbatim>\<open>.github/workflows\<close> looks at the suffix of each name
  only; \<open>None\<close> when no entry matches and the function goes on to \<^verbatim>\<open>.gitlab-ci.yml\<close>.
\<close>

fun check_ci_loop :: "string list \<Rightarrow> CheckResult option" where
  "check_ci_loop [] = None"
| "check_ci_loop (f # fs) =
     (if lower (suffix_of f) \<in> set [''.yml'', ''.yaml'']
      then Some (CheckResult ''ci'' ''CI configurado'' 15 True
                   (path_str [''.github'', ''workflows'', f]))
      else check_ci_loop fs)"

definition check_ci_gitlab :: "node \<Rightarrow> error + CheckResult" where
  "check_ci_gitlab t =
     (case is_file t [''.gitlab-ci.yml''] of
        Inl e \<Rightarrow> Inl e
      | Inr g \<Rightarrow>
          if g then Inr (CheckResult ''ci'' ''CI configurado'' 15 True ''.gitlab-ci.yml'')
          else Inr (CheckResult ''ci'' ''CI configurado'' 15 False []))"

definition check_ci :: "repo \<Rightarrow> error + CheckResult" where
  "check_ci r =
     (case is_dir (tree r) [''.github'', ''workflows''] of
        Inl e \<Rightarrow> Inl e
      | Inr d \<Rightarrow>
          if d then
            (case iterdir (tree r) [''.github'', ''workflows''] of
               Inl e \<Rightarrow> Inl e
             | Inr names \<Rightarrow>
                 (case check_ci_loop names of
                    Some res \<Rightarrow> Inr res
                  | None \<Rightarrow> check_ci_gitlab (tree r)))
          else check_ci_gitlab (tree r))"

subsection \<open>tests\<close>

text \<open>The first loop over the walked files; \<open>None\<close> when it ends without returning.\<close>

fun check_tests_files :: "path list \<Rightarrow> CheckResult option" where
  "check_tests_files [] = None"
| "check_tests_files (rel # ps) =
     (if ''__tests__'' \<in> set rel
      then Some (CheckResult ''tests'' ''Tests presentes'' 15 True (path_str rel))
      else if (str_in ''test'' (lower (stem_of (path_name rel)))
               \<or> str_in ''spec'' (lower (stem_of (path_name rel))))
            \<and> list_ex (\<lambda>x. x \<in> set rel) [''test'', ''tests'', ''spec'', ''specs'', ''__tests__'']
      then Some (CheckResult ''tests'' ''Tests presentes'' 15 True (path_str rel))
      else check_tests_files ps)"

text \<open>The second loop tests \<^verbatim>\<open>p.parts\<close>, the components of the root included.\<close>

fun check_tests_anywhere :: "repo \<Rightarrow> path list \<Rightarrow> CheckResult option" where
  "check_tests_anywhere r [] = None"
| "check_tests_anywhere r (p # ps) =
     (if ''__tests__'' \<in> set (parts r p)
      then Some (CheckResult ''tests'' ''Tests presentes'' 15 True (path_str p))
      else check_tests_anywhere r ps)"

definition check_tests_scan :: "repo \<Rightarrow> path list \<Rightarrow> CheckResult" where
  "check_tests_scan r paths =
     (case check_tests_files paths of
        Some res \<Rightarrow> res
      | None \<Rightarrow>
          (case check_tests_anywhere r paths of
             Some res \<Rightarrow> res
           | None \<Rightarrow> CheckResult ''tests'' ''Tests presentes'' 15 False []))"

definition check_tests :: "repo \<Rightarrow> error + CheckResult" where
  "check_tests r =
     (case walk_repo r of
        Inl e \<Rightarrow> Inl e
      | Inr paths \<Rightarrow>
          (case is_dir (tree r) [''tests''] of
             Inl e \<Rightarrow> Inl e
           | Inr d1 \<Rightarrow>
               if d1 then Inr (CheckResult ''tests'' ''Tests presentes'' 15 True ''tests/ o test/'')
               else
                 (case is_dir (tree r) [''test''] of
                    Inl e \<Rightarrow> Inl e
                  | Inr d2 \<Rightarrow>
                      if d2
                      then Inr (CheckResult ''tests'' ''Tests presentes'' 15 True ''tests/ o test/'')
                      else Inr (check_tests_scan r paths))))"

subsection \<open>linter\<close>

text \<open>
  \<^verbatim>\<open>str(p.relative_to(root)).replace("\\", "/")\<close>; a walked path lies below the root, so
  \<^verbatim>\<open>relative_to\<close> does not raise. A failed read of \<^verbatim>\<open>pyproject.toml\<close> goes on with the
  next path.
\<close>

definition slashes :: "string \<Rightarrow> string" where
  "slashes s = map (\<lambda>c. if c = CHR 0x5C then CHR ''/'' else c) s"

fun check_linter_loop :: "node \<Rightarrow> path list \<Rightarrow> CheckResult" where
  "check_linter_loop t [] = CheckResult ''linter'' ''Linter config'' 10 False []"
| "check_linter_loop t (p # ps) =
     (if lower (path_name p) = ''.editorconfig''
      then CheckResult ''linter'' ''Linter config'' 10 True (slashes (path_str p))
      else if startswith (lower (path_name p)) ''.eslintrc''
      then CheckResult ''linter'' ''Linter config'' 10 True (slashes (path_str p))
      else if lower (path_name p) = ''ruff.toml''
      then CheckResult ''linter'' ''Linter config'' 10 True (slashes (path_str p))
      else if lower (path_name p) = ''stylecop.json''
      then CheckResult ''linter'' ''Linter config'' 10 True (slashes (path_str p))
      else if lower (path_name p) = ''pyproject.toml''
      then (case read_text t p of
              Inl e \<Rightarrow> check_linter_loop t ps
            | Inr text \<Rightarrow>
                if str_in ''ruff'' (take 8192 text) \<or> str_in ''black'' (take 8192 text)
                   \<or> str_in ''isort'' (take 8192 text)
                then CheckResult ''linter'' ''Linter config'' 10 True (slashes (path_str p))
                else check_linter_loop t ps)
      else check_linter_loop t ps)"

definition check_linter :: "repo \<Rightarrow> error + CheckResult" where
  "check_linter r =
     (case walk_repo r of
        Inl e \<Rightarrow> Inl e
      | Inr paths \<Rightarrow> Inr (check_linter_loop (tree r) paths))"

subsection \<open>docker, security\<close>

fun check_docker_loop :: "node \<Rightarrow> string list \<Rightarrow> error + CheckResult" where
  "check_docker_loop t [] = Inr (CheckResult ''docker'' ''Docker presente'' 10 False [])"
| "check_docker_loop t (nm # ns) =
     (case is_file t [nm] of
        Inl e \<Rightarrow> Inl e
      | Inr f \<Rightarrow>
          if f then Inr (CheckResult ''docker'' ''Docker presente'' 10 True nm)
          else check_docker_loop t ns)"

definition check_docker :: "repo \<Rightarrow> error + CheckResult" where
  "check_docker r =
     check_docker_loop (tree r) [''Dockerfile'', ''docker-compose.yml'', ''docker-compose.yaml'']"

definition check_security :: "repo \<Rightarrow> error + CheckResult" where
  "check_security r =
     (case is_file (tree r) [''SECURITY.md''] of
        Inl e \<Rightarrow> Inl e
      | Inr s \<Rightarrow>
          if s then Inr (CheckResult ''security'' ''Security docs/config'' 10 True ''SECURITY.md'')
          else
            (case is_file (tree r) [''.github'', ''dependabot.yml''] of
               Inl e \<Rightarrow> Inl e
             | Inr d \<Rightarrow>
                 if d
                 then Inr (CheckResult ''security'' ''Security docs/config'' 10 True
                             ''.github/dependabot.yml'')
                 else Inr (CheckResult ''security'' ''Security docs/config'' 10 False [])))"

subsection \<open>observability\<close>

definition MAX_READ_BYTES :: nat where
  "MAX_READ_BYTES = 64 * 1024"

definition needle :: string where
  "needle = ''opentelemetry''"

text \<open>
  The second test of the loop body: the file lies below a directory named config, conf
  or workflows (or bears such a name) and its first bytes contain the needle. A failed
  read is caught and goes on with the next path, as a miss does.
\<close>

definition observability_parts_hit :: "node \<Rightarrow> path \<Rightarrow> bool" where
  "observability_parts_hit t rel =
     (if ''config'' \<in> set rel \<or> ''conf'' \<in> set rel \<or> ''workflows'' \<in> set rel
      then (case read_bytes t rel of
              Inl e \<Rightarrow> False
            | Inr content \<Rightarrow> str_in needle (lower (take MAX_READ_BYTES content)))
      else False)"

fun check_observability_loop :: "node \<Rightarrow> path list \<Rightarrow> CheckResult" where
  "check_observability_loop t [] =
     CheckResult ''observability'' ''OpenTelemetry en deps/config'' 5 False []"
| "check_observability_loop t (rel # ps) =
     (if lower (suffix_of (path_name rel))
           \<in> set [''.json'', ''.toml'', ''.yml'', ''.yaml'', ''.txt'', ''.xml'', ''.gradle'', ''.mod'']
      then (case read_bytes t rel of
              Inl e \<Rightarrow> check_observability_loop t ps
            | Inr content \<Rightarrow>
                if str_in needle (lower (take MAX_READ_BYTES content))
                then CheckResult ''observability'' ''OpenTelemetry en deps/config'' 5 True
                       (path_str rel)
                else if observability_parts_hit t rel
                then CheckResult ''observability'' ''OpenTelemetry en deps/config'' 5 True
                       (path_str rel)
                else check_observability_loop t ps)
      else if observability_parts_hit t rel
      then CheckResult ''observability'' ''OpenTelemetry en deps/config'' 5 True (path_str rel)
      else check_observability_loop t ps)"

definition check_observability :: "repo \<Rightarrow> error + CheckResult" where
  "check_observability r =
     (case walk_repo r of
        Inl e \<Rightarrow> Inl e
      | Inr paths \<Rightarrow> Inr (check_observability_loop (tree r) paths))"

subsection \<open>release\<close>

text \<open>
  The two regular expressions, both compiled with \<^verbatim>\<open>re.I\<close>, as matchers at the start
  of a string; \<^verbatim>\<open>search\<close> tries every position. On ASCII text \<^verbatim>\<open>\d\<close> is 0-9 and
  \<^verbatim>\<open>\s\<close> is the tab, the four line and page separators 0x0A-0x0D, the four
  information separators 0x1C-0x1F and the space.

  \<^verbatim>\<open>"(?:version|Version)"\s*:\s*["\']?[\d.]+\d["\']?\<close>: the word version between
  double quotes, a colon with optional white space on both sides, an optional quote, and
  a run of digits and dots that holds a digit after its first character. The last
  optional quote never decides the match.

  \<^verbatim>\<open><Version>[\d.]+</Version>\<close>: the opening tag, a non-empty run of digits and dots,
  and the closing tag right after the run.
\<close>

definition is_digit :: "char \<Rightarrow> bool" where
  "is_digit c \<longleftrightarrow> c \<in> set ''0123456789''"

definition is_space :: "char \<Rightarrow> bool" where
  "is_space c \<longleftrightarrow>
     c \<in> set [CHR 0x09, CHR 0x0A, CHR 0x0B, CHR 0x0C, CHR 0x0D,
               CHR 0x1C, CHR 0x1D, CHR 0x1E, CHR 0x1F, CHR 0x20]"

definition is_digit_or_dot :: "char \<Rightarrow> bool" where
  "is_digit_or_dot c \<longleftrightarrow> is_digit c \<or> c = CHR ''.''"

definition is_quote :: "char \<Rightarrow> bool" where
  "is_quote c \<longleftrightarrow> c = CHR 0x22 \<or> c = CHR 0x27"

definition starts_ci :: "string \<Rightarrow> string \<Rightarrow> bool" where
  "starts_ci s lit = (lower (take (length lit) s) = lower lit)"

definition skip_quote :: "string \<Rightarrow> string" where
  "skip_quote s = (case s of [] \<Rightarrow> [] | c # cs \<Rightarrow> if is_quote c then cs else c # cs)"

definition version_pattern_at :: "string \<Rightarrow> bool" where
  "version_pattern_at s =
     (starts_ci s (CHR 0x22 # ''version'' @ [CHR 0x22]) \<and>
      (case dropWhile is_space (drop 9 s) of
         [] \<Rightarrow> False
       | c # cs \<Rightarrow>
           c = CHR '':'' \<and>
           list_ex is_digit (tl (takeWhile is_digit_or_dot (skip_quote (dropWhile is_space cs))))))"

definition version_csproj_at :: "string \<Rightarrow> bool" where
  "version_csproj_at s =
     (starts_ci s ''<Version>'' \<and>
      takeWhile is_digit_or_dot (drop 9 s) \<noteq> [] \<and>
      starts_ci (dropWhile is_digit_or_dot (drop 9 s)) ''</Version>'')"

fun re_search :: "(string \<Rightarrow> bool) \<Rightarrow> string \<Rightarrow> bool" where
  "re_search m [] = m []"
| "re_search m (c # cs) = (m (c # cs) \<or> re_search m cs)"

text \<open>
  The loop over \<^verbatim>\<open>package.json\<close> and \<^verbatim>\<open>pyproject.toml\<close>: \<^verbatim>\<open>is_file\<close> stands outside the
  \<^verbatim>\<open>try\<close>, the read inside. \<open>Inr None\<close> when the loop ends without returning.
\<close>

fun release_manifests :: "node \<Rightarrow> string list \<Rightarrow> error + CheckResult option" where
  "release_manifests t [] = Inr None"
| "release_manifests t (nm # ns) =
     (case is_file t [nm] of
        Inl e \<Rightarrow> Inl e
      | Inr f \<Rightarrow>
          if f then
            (case read_text t [nm] of
               Inl e \<Rightarrow> release_manifests t ns
             | Inr text \<Rightarrow>
                 if re_search version_pattern_at (take 4096 text)
                 then Inr (Some (CheckResult ''release'' ''Release hygiene'' 10 True
                                   (nm @ '' (version)'')))
                 else release_manifests t ns)
          else release_manifests t ns)"

fun release_csproj :: "node \<Rightarrow> path list \<Rightarrow> error + CheckResult" where
  "release_csproj t [] = Inr (CheckResult ''release'' ''Release hygiene'' 10 False [])"
| "release_csproj t (p # ps) =
     (if lower (suffix_of (path_name p)) = ''.csproj''
      then (case is_file t p of
              Inl e \<Rightarrow> Inl e
            | Inr f \<Rightarrow>
                if f then
                  (case read_text t p of
                     Inl e \<Rightarrow> release_csproj t ps
                   | Inr text \<Rightarrow>
                       if re_search version_csproj_at (take 4096 text)
                       then Inr (CheckResult ''release'' ''Release hygiene'' 10 True (path_str p))
                       else release_csproj t ps)
                else release_csproj t ps)
      else release_csproj t ps)"

definition check_release_hygiene :: "repo \<Rightarrow> error + CheckResult" where
  "check_release_hygiene r =
     (case is_file (tree r) [''CHANGELOG.md''] of
        Inl e \<Rightarrow> Inl e
      | Inr c \<Rightarrow>
          if c then Inr (CheckResult ''release'' ''Release hygiene'' 10 True ''CHANGELOG.md'')
          else
            (case release_manifests (tree r) [''package.json'', ''pyproject.toml''] of
               Inl e \<Rightarrow> Inl e
             | Inr (Some res) \<Rightarrow> Inr res
             | Inr None \<Rightarrow>
                 (case walk_repo r of
                    Inl e \<Rightarrow> Inl e
                  | Inr paths \<Rightarrow> release_csproj (tree r) paths)))"

section \<open>Registry and score\<close>

definition runners :: "(repo \<Rightarrow> error + CheckResult) list" where
  "runners =
     [check_readme, check_license, check_codeowners, check_ci, check_tests,
      check_linter, check_docker, check_security, check_observability,
      check_release_hygiene]"

text \<open>The list comprehension calls the runners in order; the first exception ends it.\<close>

fun run_each :: "(repo \<Rightarrow> error + CheckResult) list \<Rightarrow> repo \<Rightarrow> error + CheckResult list" where
  "run_each [] r = Inr []"
| "run_each (fn # fns) r =
     (case fn r of
        Inl e \<Rightarrow> Inl e
      | Inr c \<Rightarrow> (case run_each fns r of Inl e \<Rightarrow> Inl e | Inr cs \<Rightarrow> Inr (c # cs)))"

definition run_all_checks :: "repo \<Rightarrow> error + CheckResult list" where
  "run_all_checks r = run_each runners r"

definition compute_score :: "CheckResult list \<Rightarrow> int" where
  "compute_score checks = sum_list (map weight (filter passed checks))"

section \<open>Report, rendering and the gate\<close>

text \<open>
  The report of \<open>build_report\<close>. The time stamp is read from the clock and the path
  printed is that of the resolved root: both are inputs here.
\<close>

datatype Report =
  Report (repoPath: string) (score: int) (passed_count: nat) (failed_count: nat)
    (checks: "CheckResult list") (timestamp: string)

fun root_str :: "string list \<Rightarrow> string" where
  "root_str [] = ''.''"
| "root_str (c # cs) = (if c = ''/'' then (if cs = [] then ''/'' else ''/'' @ path_str cs) else path_str (c # cs))"

definition build_report :: "repo \<Rightarrow> string \<Rightarrow> CheckResult list \<Rightarrow> int \<Rightarrow> Report" where
  "build_report r now cs sc =
     Report (root_str (root_parts r)) sc (length (filter passed cs))
       (length (filter (\<lambda>c. \<not> passed c) cs)) cs now"

text \<open>
  What the process writes, in order. The characters of the two renderings are not
  modelled: an output event records which renderer printed which report on the output
  stream, or the line printed on the error stream.

  \<^verbatim>\<open>print\<close> on the output stream raises UnicodeEncodeError when the stream cannot encode
  what is printed. \<open>output_json\<close> prints, with \<^verbatim>\<open>ensure_ascii=False\<close>, the path, the time
  stamp and the three strings of every result as they are; a lone surrogate among them
  cannot be encoded. \<open>output_text\<close> prints the path after a dash U+2014, which the stream
  must be able to encode, and of every result the first 10 characters of the id, the
  first 26 of the name and the first 42 of the evidence, or of \<^verbatim>\<open>-\<close> when the evidence is
  empty. What was written before an exception is not recorded. The error stream replaces
  what it cannot encode and never raises.
\<close>

datatype out_format = Json | Text

datatype output_event = Out_json Report | Out_text Report | Err string

definition output_json :: "Report \<Rightarrow> error + output_event list" where
  "output_json rep =
     (if encodable (repoPath rep) \<and> encodable (timestamp rep)
         \<and> list_all (\<lambda>c. encodable (id_str c) \<and> encodable (name c) \<and> encodable (evidence c))
              (checks rep)
      then Inr [Out_json rep] else Inl UnicodeEncodeError)"

definition output_text :: "bool \<Rightarrow> Report \<Rightarrow> error + output_event list" where
  "output_text stdout_has_dash rep =
     (if stdout_has_dash \<and> encodable (repoPath rep) \<and> encodable (timestamp rep)
         \<and> list_all (\<lambda>c. encodable (take 10 (id_str c)) \<and> encodable (take 26 (name c))
                        \<and> encodable (take 42 (if evidence c = [] then ''-'' else evidence c)))
              (checks rep)
      then Inr [Out_text rep] else Inl UnicodeEncodeError)"

text \<open>\<^verbatim>\<open>str\<close> of an integer, as the f-string of the gate's message formats it.\<close>

definition digit_char :: "nat \<Rightarrow> char" where
  "digit_char d = ''0123456789'' ! (d mod 10)"

fun str_nat :: "nat \<Rightarrow> string" where
  "str_nat n = (if n < 10 then [digit_char n] else str_nat (n div 10) @ [digit_char (n mod 10)])"

definition str_int :: "int \<Rightarrow> string" where
  "str_int i = (if i < 0 then CHR ''-'' # str_nat (nat (- i)) else str_nat (nat i))"

text \<open>The i with an acute accent of the message is the character 0xED.\<close>

definition gate_message :: "int \<Rightarrow> int \<Rightarrow> string" where
  "gate_message sc m =
     ''Score '' @ str_int sc @ '' por debajo del m'' @ [CHR 0xED] @ ''nimo '' @ str_int m @ ''.''"

record Namespace =
  out :: out_format
  min_score :: "int option"

text \<open>
  \<open>main\<close>, given the parsed arguments, the clock, whether the output stream encodes the
  dash U+2014, the components of the resolved root and what the root path leads to
  (\<open>None\<close> when nothing is there). The result is the exit status with the output
  written, or the exception that leaves \<open>main\<close> uncaught.
\<close>

definition main ::
  "Namespace \<Rightarrow> string \<Rightarrow> bool \<Rightarrow> string list \<Rightarrow> node option
     \<Rightarrow> error + int \<times> output_event list" where
  "main args now stdout_has_dash rp target =
     (case target of
        None \<Rightarrow> Inr (1, [Err ''Error: la ruta no existe.''])
      | Some t \<Rightarrow>
          (case is_dir t [] of
             Inl e \<Rightarrow> Inl e
           | Inr d \<Rightarrow>
               if \<not> d then Inr (1, [Err ''Error: la ruta no es un directorio.''])
               else
                 (case iterdir t [] of
                    Inl e \<Rightarrow>
                      if e = PermissionError
                      then Inr (1, [Err ''Error: sin permiso de lectura en el directorio.''])
                      else Inl e
                  | Inr names \<Rightarrow>
                      (case run_all_checks \<lparr>root_parts = rp, tree = t\<rparr> of
                         Inl e \<Rightarrow> Inl e
                       | Inr cs \<Rightarrow>
                           (let sc = compute_score cs;
                                rep = build_report \<lparr>root_parts = rp, tree = t\<rparr> now cs sc
                            in case (if out args = Text then output_text stdout_has_dash rep
                                     else output_json rep) of
                                 Inl e \<Rightarrow> Inl e
                               | Inr printed \<Rightarrow>
                                   (case min_score args of
                                      None \<Rightarrow> Inr (0, printed)
                                    | Some m \<Rightarrow>
                                        if sc < m
                                        then Inr (1, printed @ [Err (gate_message sc m)])
                                        else Inr (0, printed)))))))"

section \<open>Well-formed trees\<close>

text \<open>No entry of a directory has the empty name.\<close>

fun names_ok :: "node \<Rightarrow> bool"
  and names_ok_entries :: "(string \<times> node) list \<Rightarrow> bool" where
  "names_ok (Dir r x es) = names_ok_entries es"
| "names_ok (File r s) = True"
| "names_ok Special = True"
| "names_ok_entries [] = True"
| "names_ok_entries ((n, m) # es) = (n \<noteq> [] \<and> names_ok m \<and> names_ok_entries es)"

text \<open>Every directory of the tree can be listed and searched.\<close>

fun accessible :: "node \<Rightarrow> bool"
  and accessible_entries :: "(string \<times> node) list \<Rightarrow> bool" where
  "accessible (Dir r x es) = (r \<and> x \<and> accessible_entries es)"
| "accessible (File r s) = True"
| "accessible Special = True"
| "accessible_entries [] = True"
| "accessible_entries ((n, m) # es) = (accessible m \<and> accessible_entries es)"

section \<open>Example repositories\<close>

text \<open>A repository that holds a \<^verbatim>\<open>README.md\<close> and nothing else, and what the checks return on it.\<close>

definition readme_only :: repo where
  "readme_only = \<lparr>root_parts = [''/'', ''home'', ''repo''],
                   tree = Dir True True [(''README.md'', File True ''hello'')]\<rparr>"

definition readme_only_results :: "CheckResult list" where
  "readme_only_results =
     [CheckResult ''readme'' ''README existe'' 10 True ''README.md'',
      CheckResult ''license'' ''LICENSE existe'' 5 False [],
      CheckResult ''codeowners'' ''CODEOWNERS existe'' 10 False [],
      CheckResult ''ci'' ''CI configurado'' 15 False [],
      CheckResult ''tests'' ''Tests presentes'' 15 False [],
      CheckResult ''linter'' ''Linter config'' 10 False [],
      CheckResult ''docker'' ''Docker presente'' 10 False [],
      CheckResult ''security'' ''Security docs/config'' 10 False [],
      CheckResult ''observability'' ''OpenTelemetry en deps/config'' 5 False [],
      CheckResult ''release'' ''Release hygiene'' 10 False []]"


text \<open>
  A repository whose only file is a \<^verbatim>\<open>pyproject.toml\<close> with the version line of a
  TOML project table.
\<close>

definition pyproject_text :: string where
  "pyproject_text = ''[project]'' @ [CHR 0x0A] @ ''version = '' @ [CHR 0x22] @ ''1.2.3'' @ [CHR 0x22, CHR 0x0A]"

definition pyproject_only :: repo where
  "pyproject_only = \<lparr>root_parts = [''/'', ''home'', ''repo''],
                      tree = Dir True True [(''pyproject.toml'', File True pyproject_text)]\<rparr>"

text \<open>
  A repository with a directory that can be listed but not searched (mode \<^verbatim>\<open>r--\<close>):
  its entry is yielded by \<^verbatim>\<open>rglob\<close> and cannot be examined.
\<close>

definition locked_dir_repo :: repo where
  "locked_dir_repo =
     \<lparr>root_parts = [''/'', ''home'', ''repo''],
      tree = Dir True True
        [(''a.txt'', File True []),
         (''locked'', Dir True False [(''secret.txt'', File True [])]),
         (''src'', Dir True True [(''main.py'', File True [])])]\<rparr>"

text \<open>A repository that holds an empty \<^verbatim>\<open>__tests__\<close> directory and nothing else.\<close>

definition empty_tests_dir :: repo where
  "empty_tests_dir = \<lparr>root_parts = [''/'', ''home'', ''repo''],
                       tree = Dir True True [(''__tests__'', Dir True True [])]\<rparr>"

text \<open>
  A repository whose \<^verbatim>\<open>.github/workflows\<close> directory cannot be listed (mode
  \<^verbatim>\<open>---\<close>); the root and \<^verbatim>\<open>.github\<close> are accessible.
\<close>

definition closed_workflows :: repo where
  "closed_workflows =
     \<lparr>root_parts = [''/'', ''home'', ''repo''],
      tree = Dir True True
        [(''README.md'', File True []),
         (''.github'', Dir True True [(''workflows'', Dir False False [])])]\<rparr>"

text \<open>
  A repository whose top level holds regular files named \<^verbatim>\<open>README\<close>, \<^verbatim>\<open>readme.\<close> and
  \<^verbatim>\<open>README-dev\<close> and one other file; and one whose only file is \<^verbatim>\<open>readme.x\<close>.
\<close>

definition bare_readme :: repo where
  "bare_readme =
     \<lparr>root_parts = [''/'', ''home'', ''repo''],
      tree = Dir True True
        [(''README'', File True ''text''),
         (''readme.'', File True []),
         (''README-dev'', File True []),
         (''notes.txt'', File True [])]\<rparr>"

definition readme_x :: repo where
  "readme_x = \<lparr>root_parts = [''/'', ''home'', ''repo''],
                tree = Dir True True [(''readme.x'', File True [])]\<rparr>"

text \<open>
  A repository whose \<^verbatim>\<open>.github/workflows\<close> holds one entry, a directory named
  \<^verbatim>\<open>build.yml\<close>; there is no \<^verbatim>\<open>.gitlab-ci.yml\<close>.
\<close>

definition workflows_subdir :: repo where
  "workflows_subdir =
     \<lparr>root_parts = [''/'', ''home'', ''repo''],
      tree = Dir True True
        [(''.github'', Dir True True [(''workflows'', Dir True True [(''build.yml'', Dir True True [])])])]\<rparr>"

text \<open>An empty directory, and what the checks return on it.\<close>

definition empty_repo :: repo where
  "empty_repo = \<lparr>root_parts = [''/'', ''home'', ''repo''], tree = Dir True True []\<rparr>"

definition empty_repo_results :: "CheckResult list" where
  "empty_repo_results =
     [CheckResult ''readme'' ''README existe'' 10 False [],
      CheckResult ''license'' ''LICENSE existe'' 5 False [],
      CheckResult ''codeowners'' ''CODEOWNERS existe'' 10 False [],
      CheckResult ''ci'' ''CI configurado'' 15 False [],
      CheckResult ''tests'' ''Tests presentes'' 15 False [],
      CheckResult ''linter'' ''Linter config'' 10 False [],
      CheckResult ''docker'' ''Docker presente'' 10 False [],
      CheckResult ''security'' ''Security docs/config'' 10 False [],
      CheckResult ''observability'' ''OpenTelemetry en deps/config'' 5 False [],
      CheckResult ''release'' ''Release hygiene'' 10 False []]"

text \<open>Arguments and a clock reading for runs of \<open>main\<close>.\<close>

definition gate_args :: Namespace where
  "gate_args = \<lparr>out = Json, min_score = Some 50\<rparr>"

definition plain_args :: Namespace where
  "plain_args = \<lparr>out = Json, min_score = None\<rparr>"

definition text_args :: Namespace where
  "text_args = \<lparr>out = Text, min_score = None\<rparr>"

definition sample_now :: string where
  "sample_now = ''2026-01-01T00:00:00Z''"

definition readme_only_rendered :: Report where
  "readme_only_rendered = Report ''/home/repo'' 10 1 9 readme_only_results sample_now"

text \<open>A repository whose only file is a \<^verbatim>\<open>package.json\<close> with a version member.\<close>

definition package_json_text :: string where
  "package_json_text = ''{'' @ [CHR 0x22] @ ''version'' @ [CHR 0x22] @ '': '' @ [CHR 0x22] @ ''1.2.3'' @ [CHR 0x22] @ ''}''"

definition package_json_only :: repo where
  "package_json_only = \<lparr>root_parts = [''/'', ''home'', ''repo''],
                         tree = Dir True True [(''package.json'', File True package_json_text)]\<rparr>"

text \<open>The repository \<open>locked_dir_repo\<close> with the directory made searchable.\<close>

definition unlocked_dir_repo :: repo where
  "unlocked_dir_repo =
     \<lparr>root_parts = [''/'', ''home'', ''repo''],
      tree = Dir True True
        [(''a.txt'', File True []),
         (''locked'', Dir True True [(''secret.txt'', File True [])]),
         (''src'', Dir True True [(''main.py'', File True [])])]\<rparr>"

text \<open>An empty \<^verbatim>\<open>tests\<close> directory, and a \<^verbatim>\<open>__tests__\<close> directory with one file.\<close>

definition empty_tests_sibling :: repo where
  "empty_tests_sibling = \<lparr>root_parts = [''/'', ''home'', ''repo''],
                          tree = Dir True True [(''tests'', Dir True True [])]\<rparr>"

definition filled_tests_dir :: repo where
  "filled_tests_dir =
     \<lparr>root_parts = [''/'', ''home'', ''repo''],
      tree = Dir True True [(''__tests__'', Dir True True [(''a.js'', File True [])])]\<rparr>"

section \<open>Evaluating the checks\<close>

lemmas fs_defs = is_file_def is_dir_def iterdir_def read_file_def read_text_def read_bytes_def
  decode_ignore_def is_ascii_def walk_repo_def parts_def IGNORED_DIRS_def

lemmas str_defs = upper_def lower_def upper_char_def lower_char_def upper_letters_def
  lower_letters_def startswith_def path_name_def suffix_of_def stem_of_def has_suffix_def
  after_last_dot_def

lemma readme_only_walk: "walk_repo readme_only = Inr [[''README.md'']]"
  by (simp add: readme_only_def fs_defs)

lemma readme_only_readme: "check_readme readme_only = Inr (CheckResult ''readme'' ''README existe'' 10 True ''README.md'')"
  by (simp add: check_readme_def readme_only_def fs_defs str_defs)
lemma readme_only_license: "check_license readme_only = Inr (CheckResult ''license'' ''LICENSE existe'' 5 False [])"
  by (simp add: check_license_def readme_only_def fs_defs str_defs)
lemma readme_only_codeowners: "check_codeowners readme_only = Inr (CheckResult ''codeowners'' ''CODEOWNERS existe'' 10 False [])"
  by (simp add: check_codeowners_def readme_only_def fs_defs str_defs)
lemma readme_only_ci: "check_ci readme_only = Inr (CheckResult ''ci'' ''CI configurado'' 15 False [])"
  by (simp add: check_ci_def check_ci_gitlab_def readme_only_def fs_defs str_defs)
lemma readme_only_tests: "check_tests readme_only = Inr (CheckResult ''tests'' ''Tests presentes'' 15 False [])"
  by (simp add: check_tests_def readme_only_walk) (simp add: check_tests_scan_def readme_only_def fs_defs str_defs)
lemma readme_only_linter: "check_linter readme_only = Inr (CheckResult ''linter'' ''Linter config'' 10 False [])"
  by (simp add: check_linter_def readme_only_walk) (simp add: readme_only_def fs_defs str_defs)
lemma readme_only_docker: "check_docker readme_only = Inr (CheckResult ''docker'' ''Docker presente'' 10 False [])"
  by (simp add: check_docker_def readme_only_def fs_defs str_defs)
lemma readme_only_security: "check_security readme_only = Inr (CheckResult ''security'' ''Security docs/config'' 10 False [])"
  by (simp add: check_security_def readme_only_def fs_defs str_defs)

lemma readme_only_observability: "check_observability readme_only = Inr (CheckResult ''observability'' ''OpenTelemetry en deps/config'' 5 False [])"
  by (simp add: check_observability_def readme_only_walk) (simp add: observability_parts_hit_def readme_only_def fs_defs str_defs)
lemma readme_only_release: "check_release_hygiene readme_only = Inr (CheckResult ''release'' ''Release hygiene'' 10 False [])"
  by (simp add: check_release_hygiene_def readme_only_walk) (simp add: readme_only_def fs_defs str_defs)

lemma readme_only_run: "run_all_checks readme_only = Inr readme_only_results"
  by (simp add: run_all_checks_def runners_def readme_only_results_def readme_only_readme readme_only_license readme_only_codeowners readme_only_ci readme_only_tests
       readme_only_linter readme_only_docker readme_only_security readme_only_observability readme_only_release)


section \<open>Every check has a fixed weight\<close>

lemma is_file_error: "is_file t p = Inl e \<Longrightarrow> e = PermissionError"
  by (auto simp: is_file_def split: stat_result.splits node.splits)

lemma walk_loop_returns: "\<exists>ps. walk_loop r xs acc = Inr ps"
proof (induction xs arbitrary: acc)
  case Nil
  show ?case by simp
next
  case (Cons p xs)
  show ?case
  proof (cases "is_file (tree r) p")
    case (Inl e)
    then show ?thesis using is_file_error [OF Inl] by simp
  next
    case (Inr f)
    then show ?thesis using Cons.IH by simp
  qed
qed

lemma walk_repo_returns: "\<exists>ps. walk_repo r = Inr ps"
  unfolding walk_repo_def by (rule walk_loop_returns)

lemma check_readme_loop_weight: "check_readme_loop t ns = Inr c \<Longrightarrow> weight c = 10"
  by (induction ns) (auto split: sum.splits if_splits)

lemma check_readme_weight: "check_readme r = Inr c \<Longrightarrow> weight c = 10"
  by (auto simp: check_readme_def split: sum.splits dest: check_readme_loop_weight)

lemma check_license_loop_weight: "check_license_loop t ns = Inr c \<Longrightarrow> weight c = 5"
  by (induction ns) (auto split: sum.splits if_splits)

lemma check_license_weight: "check_license r = Inr c \<Longrightarrow> weight c = 5"
  by (auto simp: check_license_def split: sum.splits dest: check_license_loop_weight)

lemma check_codeowners_loop_weight: "check_codeowners_loop t ps = Inr c \<Longrightarrow> weight c = 10"
  by (induction ps) (auto split: sum.splits if_splits)

lemma check_codeowners_weight: "check_codeowners r = Inr c \<Longrightarrow> weight c = 10"
  unfolding check_codeowners_def by (rule check_codeowners_loop_weight)

lemma check_ci_loop_weight: "check_ci_loop fs = Some c \<Longrightarrow> weight c = 15"
  by (induction fs) (auto split: if_splits)

lemma check_ci_gitlab_weight: "check_ci_gitlab t = Inr c \<Longrightarrow> weight c = 15"
  by (auto simp: check_ci_gitlab_def split: sum.splits if_splits)

lemma check_ci_weight: "check_ci r = Inr c \<Longrightarrow> weight c = 15"
  by (auto simp: check_ci_def split: sum.splits if_splits option.splits
      dest: check_ci_loop_weight check_ci_gitlab_weight)

lemma check_tests_files_weight: "check_tests_files ps = Some c \<Longrightarrow> weight c = 15"
  by (induction ps) (auto split: if_splits)

lemma check_tests_anywhere_weight: "check_tests_anywhere r ps = Some c \<Longrightarrow> weight c = 15"
  by (induction ps) (auto split: if_splits)

lemma check_tests_scan_weight: "weight (check_tests_scan r ps) = 15"
  by (auto simp: check_tests_scan_def split: option.splits
      dest: check_tests_files_weight check_tests_anywhere_weight)

lemma check_tests_weight: "check_tests r = Inr c \<Longrightarrow> weight c = 15"
  by (auto simp: check_tests_def check_tests_scan_weight split: sum.splits if_splits)

lemma check_linter_loop_weight: "weight (check_linter_loop t ps) = 10"
  by (induction ps) (auto split: sum.splits)

lemma check_linter_weight: "check_linter r = Inr c \<Longrightarrow> weight c = 10"
  by (auto simp: check_linter_def check_linter_loop_weight split: sum.splits)

lemma check_docker_loop_weight: "check_docker_loop t ns = Inr c \<Longrightarrow> weight c = 10"
  by (induction ns) (auto split: sum.splits if_splits)

lemma check_docker_weight: "check_docker r = Inr c \<Longrightarrow> weight c = 10"
  unfolding check_docker_def by (rule check_docker_loop_weight)

lemma check_security_weight: "check_security r = Inr c \<Longrightarrow> weight c = 10"
  by (auto simp: check_security_def split: sum.splits if_splits)

lemma check_observability_loop_weight: "weight (check_observability_loop t ps) = 5"
  by (induction ps) (auto split: sum.splits)

lemma check_observability_weight: "check_observability r = Inr c \<Longrightarrow> weight c = 5"
  by (auto simp: check_observability_def check_observability_loop_weight split: sum.splits)

lemma release_manifests_weight: "release_manifests t ns = Inr (Some c) \<Longrightarrow> weight c = 10"
  by (induction ns) (auto split: sum.splits if_splits)

lemma release_csproj_weight: "release_csproj t ps = Inr c \<Longrightarrow> weight c = 10"
  by (induction ps) (auto split: sum.splits if_splits)

lemma check_release_hygiene_weight: "check_release_hygiene r = Inr c \<Longrightarrow> weight c = 10"
  by (auto simp: check_release_hygiene_def split: sum.splits if_splits option.splits
      dest: release_manifests_weight release_csproj_weight)

lemma run_all_checks_weights:
  assumes "run_all_checks r = Inr cs"
  shows "map weight cs = [10, 5, 10, 15, 15, 10, 10, 10, 5, 10]"
  using assms
  by (auto simp: run_all_checks_def runners_def split: sum.splits
      dest!: check_readme_weight check_license_weight check_codeowners_weight check_ci_weight
        check_tests_weight check_linter_weight check_docker_weight check_security_weight
        check_observability_weight check_release_hygiene_weight)

section \<open>The score\<close>

lemma run_all_checks_length:
  assumes "run_all_checks r = Inr cs"
  shows "length cs = 10"
proof -
  have "length (map weight cs) = 10"
    by (simp add: run_all_checks_weights [OF assms])
  then show ?thesis by simp
qed

lemma sum_list_filter_index:
  "sum_list (map f (filter P xs)) = (\<Sum>i | i < length xs \<and> P (xs ! i). (f (xs ! i) :: int))"
proof -
  have "sum_list (map f (filter P xs)) = sum_list (map (\<lambda>x. if P x then f x else 0) xs)"
    by (induction xs) auto
  also have "\<dots> = (\<Sum>i = 0..<length xs. if P (xs ! i) then f (xs ! i) else 0)"
    by (simp add: sum_list_sum_nth)
  also have "\<dots> = (\<Sum>i \<in> {i \<in> {0..<length xs}. P (xs ! i)}. f (xs ! i))"
    by (rule sum.inter_filter [symmetric]) simp
  also have "\<dots> = (\<Sum>i | i < length xs \<and> P (xs ! i). f (xs ! i))"
    by (rule arg_cong [where f = "sum (\<lambda>i. f (xs ! i))"]) auto
  finally show ?thesis .
qed

lemma filter_sum_bounds:
  assumes "\<forall>x \<in> set xs. (0::int) \<le> f x"
  shows "0 \<le> sum_list (map f (filter P xs)) \<and> sum_list (map f (filter P xs)) \<le> sum_list (map f xs)"
  using assms by (induction xs) auto

lemma run_all_checks_weight_nonneg:
  assumes "run_all_checks r = Inr cs"
  shows "\<forall>c \<in> set cs. 0 \<le> weight c"
proof -
  have "set (map weight cs) = {10, 5, 15}"
    by (auto simp: run_all_checks_weights [OF assms])
  then have "weight ` set cs = {10, 5, 15}" by simp
  then show ?thesis by (metis imageI insertE singletonD zero_le_numeral)
qed

text \<open>
  C1. Whenever \<open>run_all_checks\<close> produces its list for a repository, the score that
  \<open>compute_score\<close> returns on it is the sum of the weights of exactly the results whose
  \<open>passed\<close> is true, and it lies between 0 and 100.
\<close>

theorem score_is_sum_of_passed_weights:
  assumes "run_all_checks r = Inr cs"
  shows "compute_score cs = (\<Sum>i | i < length cs \<and> passed (cs ! i). weight (cs ! i))
         \<and> 0 \<le> compute_score cs \<and> compute_score cs \<le> 100"
proof -
  have total: "sum_list (map weight cs) = 100"
    by (simp add: run_all_checks_weights [OF assms])
  have "0 \<le> compute_score cs \<and> compute_score cs \<le> sum_list (map weight cs)"
    unfolding compute_score_def
    by (rule filter_sum_bounds) (rule run_all_checks_weight_nonneg [OF assms])
  with total show ?thesis
    by (simp add: compute_score_def sum_list_filter_index)
qed

theorem score_is_sum_of_passed_weights_witness:
  "run_all_checks readme_only = Inr readme_only_results
   \<and> compute_score readme_only_results = 10
   \<and> (\<Sum>i | i < length readme_only_results \<and> passed (readme_only_results ! i).
         weight (readme_only_results ! i)) = 10"
proof -
  have sc: "compute_score readme_only_results = 10"
    by (simp add: compute_score_def readme_only_results_def)
  from score_is_sum_of_passed_weights [OF readme_only_run] sc readme_only_run
  show ?thesis by simp
qed

text \<open>
  C2. The list that \<open>run_all_checks\<close> produces has ten results; their weights are
  10, 5, 10, 15, 15, 10, 10, 10, 5, 10 whatever the repository holds, and sum to 100.
\<close>

theorem registry_weights_sum_to_100:
  assumes "run_all_checks r = Inr cs"
  shows "length cs = 10 \<and> sum_list (map weight cs) = 100
         \<and> map weight cs = [10, 5, 10, 15, 15, 10, 10, 10, 5, 10]"
  using run_all_checks_weights [OF assms] run_all_checks_length [OF assms] by simp

theorem registry_weights_sum_to_100_witness:
  "run_all_checks readme_only = Inr readme_only_results
   \<and> length readme_only_results = 10 \<and> sum_list (map weight readme_only_results) = 100"
  using registry_weights_sum_to_100 [OF readme_only_run] readme_only_run by simp

section \<open>The release check on a TOML version line\<close>

lemma lower_char_quote: "lower_char c = CHR 0x22 \<Longrightarrow> c = CHR 0x22"
  by (auto simp: lower_char_def upper_letters_def lower_letters_def split: if_splits)

lemma version_pattern_at_Nil: "version_pattern_at [] = False"
  by (simp add: version_pattern_at_def starts_ci_def lower_def)

lemma lower_char_of_quote: "lower_char (CHR 0x22) = CHR 0x22"
  by (simp add: lower_char_def upper_letters_def lower_letters_def)

lemma version_pattern_at_first:
  assumes "c \<noteq> CHR 0x22"
  shows "version_pattern_at (c # cs) = False"
proof -
  have "lower_char c \<noteq> lower_char (CHR 0x22)"
    using assms lower_char_quote [of c] by (auto simp: lower_char_of_quote)
  then show ?thesis
    by (simp add: version_pattern_at_def starts_ci_def lower_def)
qed

lemma version_pattern_at_second:
  "lower_char c \<noteq> CHR ''v'' \<Longrightarrow> version_pattern_at (q # c # cs) = False"
  by (auto simp: version_pattern_at_def starts_ci_def lower_def lower_char_def
      upper_letters_def lower_letters_def)

lemma pyproject_text_decoded:
  "universal_newlines (filter is_ascii pyproject_text) = pyproject_text"
  by (simp add: pyproject_text_def is_ascii_def)

lemma pyproject_text_no_match: "re_search version_pattern_at (take 4096 pyproject_text) = False"
  by (simp add: pyproject_text_def version_pattern_at_Nil version_pattern_at_first
      version_pattern_at_second lower_char_def upper_letters_def lower_letters_def)

lemma pyproject_only_walk: "walk_repo pyproject_only = Inr [[''pyproject.toml'']]"
  by (simp add: pyproject_only_def fs_defs)

text \<open>The same pattern finds the version member of a \<^verbatim>\<open>package.json\<close>.\<close>

lemma re_search_hit: "m (drop k s) \<Longrightarrow> k \<le> length s \<Longrightarrow> re_search m s"
proof (induction s arbitrary: k)
  case Nil
  then show ?case by simp
next
  case (Cons c cs)
  then show ?case by (cases k) auto
qed

lemma package_json_text_decoded:
  "universal_newlines (filter is_ascii package_json_text) = package_json_text"
  by (simp add: package_json_text_def is_ascii_def)

lemma package_json_text_match: "re_search version_pattern_at (take 4096 package_json_text)"
proof -
  have t: "take 4096 package_json_text = package_json_text"
    by (simp add: package_json_text_def)
  have "version_pattern_at (drop 1 package_json_text)"
    by (simp add: package_json_text_def version_pattern_at_def starts_ci_def skip_quote_def
        is_space_def is_digit_def is_digit_or_dot_def is_quote_def str_defs)
  then show ?thesis
    unfolding t by (rule re_search_hit) (simp add: package_json_text_def)
qed

lemma release_passes_on_package_json:
  "check_release_hygiene package_json_only
     = Inr (CheckResult ''release'' ''Release hygiene'' 10 True ''package.json (version)'')"
  using package_json_text_match
  by (simp add: check_release_hygiene_def package_json_only_def fs_defs package_json_text_decoded)

text \<open>
  C4. The specification has the release check pass for a repository whose only relevant
  file is a \<^verbatim>\<open>pyproject.toml\<close> with a version field of numeric dotted value. On
  \<open>pyproject_only\<close>, whose \<^verbatim>\<open>pyproject.toml\<close> reads \<^verbatim>\<open>version = "1.2.3"\<close>, the
  check returns \<open>passed = False\<close>: the pattern asks for the word version between double
  quotes followed by a colon, the form of \<^verbatim>\<open>package.json\<close>.
\<close>

theorem release_misses_pyproject_version:
  "check_release_hygiene pyproject_only = Inr (CheckResult ''release'' ''Release hygiene'' 10 False [])"
proof -
  have "release_manifests (tree pyproject_only) [''package.json'', ''pyproject.toml''] = Inr None"
    using pyproject_text_no_match
    by (simp add: pyproject_only_def fs_defs pyproject_text_decoded)
  moreover have "is_file (tree pyproject_only) [''CHANGELOG.md''] = Inr False"
    by (simp add: pyproject_only_def fs_defs)
  moreover have "release_csproj (tree pyproject_only) [[''pyproject.toml'']]
      = Inr (CheckResult ''release'' ''Release hygiene'' 10 False [])"
    by (simp add: str_defs)
  ultimately show ?thesis
    by (simp add: check_release_hygiene_def pyproject_only_walk)
qed

section \<open>The walker after a permission error\<close>

text \<open>With every directory searchable the walker returns the three files.\<close>

lemma walk_repo_without_permission_error:
  "walk_repo unlocked_dir_repo
     = Inr [[''a.txt''], [''locked'', ''secret.txt''], [''src'', ''main.py'']]"
  by (simp add: unlocked_dir_repo_def fs_defs)

text \<open>
  C5. The specification has the walker skip only the inaccessible path and return every
  accessible file elsewhere. On \<open>locked_dir_repo\<close> the enumeration reaches
  \<^verbatim>\<open>locked/secret.txt\<close> before \<^verbatim>\<open>src/main.py\<close>; examining the former raises
  PermissionError, the loop ends, and the accessible regular file \<^verbatim>\<open>src/main.py\<close> is
  not returned.
\<close>

theorem walk_repo_abandons_after_permission_error:
  "rglob [] (tree locked_dir_repo)
     = [[''a.txt''], [''locked''], [''src''], [''locked'', ''secret.txt''], [''src'', ''main.py'']]
   \<and> is_file (tree locked_dir_repo) [''locked'', ''secret.txt''] = Inl PermissionError
   \<and> is_file (tree locked_dir_repo) [''src'', ''main.py''] = Inr True
   \<and> walk_repo locked_dir_repo = Inr [[''a.txt'']]"
  by (simp add: locked_dir_repo_def fs_defs)

section \<open>The tests check on an empty directory\<close>

text \<open>
  An empty \<^verbatim>\<open>tests\<close> directory passes, and so does a \<^verbatim>\<open>__tests__\<close> directory that holds
  a file.
\<close>

lemma empty_tests_sibling_passes:
  "check_tests empty_tests_sibling
     = Inr (CheckResult ''tests'' ''Tests presentes'' 15 True ''tests/ o test/'')"
  by (simp add: empty_tests_sibling_def check_tests_def fs_defs)

lemma filled_tests_dir_passes:
  "check_tests filled_tests_dir
     = Inr (CheckResult ''tests'' ''Tests presentes'' 15 True ''__tests__/a.js'')"
  by (simp add: filled_tests_dir_def check_tests_def check_tests_scan_def fs_defs)

text \<open>
  C6. The specification has a \<^verbatim>\<open>__tests__\<close> directory anywhere, even one without
  files, make the tests check pass. On \<open>empty_tests_dir\<close> the directory exists and the check returns
  \<open>passed = False\<close>: both loops run over the walked files only.
\<close>

theorem empty_tests_directory_fails:
  "is_dir (tree empty_tests_dir) [''__tests__''] = Inr True
   \<and> check_tests empty_tests_dir = Inr (CheckResult ''tests'' ''Tests presentes'' 15 False [])"
  by (simp add: empty_tests_dir_def check_tests_def check_tests_scan_def fs_defs)

section \<open>A check that raises\<close>

lemma closed_workflows_ci: "check_ci closed_workflows = Inl PermissionError"
  by (simp add: closed_workflows_def check_ci_def fs_defs)

lemma closed_workflows_run: "run_all_checks closed_workflows = Inl PermissionError"
proof -
  have "\<exists>c. check_readme closed_workflows = Inr c"
    by (simp add: closed_workflows_def check_readme_def fs_defs str_defs)
  moreover have "\<exists>c. check_license closed_workflows = Inr c"
    by (simp add: closed_workflows_def check_license_def fs_defs str_defs)
  moreover have "\<exists>c. check_codeowners closed_workflows = Inr c"
    by (simp add: closed_workflows_def check_codeowners_def fs_defs str_defs)
  ultimately show ?thesis
    using closed_workflows_ci by (auto simp: run_all_checks_def runners_def)
qed

text \<open>
  C8. The specification has no check ever raise. On \<open>closed_workflows\<close>, whose root
  is a directory that can be listed, \<^verbatim>\<open>.github/workflows\<close> is a directory and listing it
  raises PermissionError, which \<open>check_ci\<close> does not catch: the check and with it
  \<open>run_all_checks\<close> end in the exception.
\<close>

theorem check_ci_raises_on_unreadable_workflows:
  "is_dir (tree closed_workflows) [] = Inr True
   \<and> (\<exists>names. iterdir (tree closed_workflows) [] = Inr names)
   \<and> is_dir (tree closed_workflows) [''.github'', ''workflows''] = Inr True
   \<and> iterdir (tree closed_workflows) [''.github'', ''workflows''] = Inl PermissionError
   \<and> check_ci closed_workflows = Inl PermissionError
   \<and> run_all_checks closed_workflows = Inl PermissionError"
  using closed_workflows_ci closed_workflows_run
  by (simp add: closed_workflows_def fs_defs)

section \<open>The readme check on names without an extension\<close>

lemma not_candidate:
  assumes "\<not> (\<exists>ext. ext \<noteq> [] \<and> upper n = ''README.'' @ ext)"
  shows "\<not> (upper n = ''README.MD'' \<or> (startswith (upper n) ''README.'' \<and> length (upper n) > 7))"
proof
  assume "upper n = ''README.MD'' \<or> (startswith (upper n) ''README.'' \<and> length (upper n) > 7)"
  then show False
  proof
    assume "upper n = ''README.MD''"
    then have "''MD'' \<noteq> [] \<and> upper n = ''README.'' @ ''MD''" by simp
    with assms show False by blast
  next
    assume h: "startswith (upper n) ''README.'' \<and> length (upper n) > 7"
    then have "take (length ''README.'') (upper n) = ''README.''"
      by (simp only: startswith_def)
    then have "upper n = ''README.'' @ drop (length ''README.'') (upper n)"
      by (metis append_take_drop_id)
    moreover have "drop (length ''README.'') (upper n) \<noteq> []" using h by simp
    ultimately show False using assms by blast
  qed
qed

lemma is_candidate:
  assumes "ext \<noteq> []" and "upper n = ''README.'' @ ext"
  shows "startswith (upper n) ''README.'' \<and> length (upper n) > 7"
  using assms by (simp add: startswith_def)

lemma is_file_top:
  "is_file (Dir True True es) [n] = Inr True \<Longrightarrow> \<exists>rd s. (n, File rd s) \<in> set es"
  by (auto simp: is_file_def split: option.splits node.splits dest: map_of_SomeD)

lemma is_file_top_returns: "\<exists>b. is_file (Dir True True es) [n] = Inr b"
  by (auto simp: is_file_def split: option.splits node.splits)

lemma is_file_top_distinct:
  "distinct (map fst es) \<Longrightarrow> (n, File rd s) \<in> set es \<Longrightarrow> is_file (Dir True True es) [n] = Inr True"
  by (simp add: is_file_def)

lemma check_readme_loop_fails:
  assumes "\<forall>n \<in> set ns. is_file t [n] = Inr True \<longrightarrow>
             \<not> (\<exists>ext. ext \<noteq> [] \<and> upper n = ''README.'' @ ext)"
    and "\<forall>n \<in> set ns. \<exists>b. is_file t [n] = Inr b"
  shows "check_readme_loop t ns = Inr (CheckResult ''readme'' ''README existe'' 10 False [])"
  using assms
proof (induction ns)
  case Nil
  show ?case by simp
next
  case (Cons n ns)
  from Cons.prems(2) obtain b where b: "is_file t [n] = Inr b" by auto
  have rest: "check_readme_loop t ns = Inr (CheckResult ''readme'' ''README existe'' 10 False [])"
    using Cons by simp
  show ?case
  proof (cases b)
    case True
    with b Cons.prems(1) have "\<not> (\<exists>ext. ext \<noteq> [] \<and> upper n = ''README.'' @ ext)"
      by simp
    from not_candidate [OF this] b rest True show ?thesis by auto
  next
    case False
    with b rest show ?thesis by simp
  qed
qed

lemma check_readme_loop_passes:
  assumes "\<forall>n \<in> set ns. \<exists>b. is_file t [n] = Inr b"
    and "n \<in> set ns" and "is_file t [n] = Inr True"
    and "ext \<noteq> []" and "upper n = ''README.'' @ ext"
  shows "\<exists>ev. check_readme_loop t ns = Inr (CheckResult ''readme'' ''README existe'' 10 True ev)"
  using assms(1,2)
proof (induction ns)
  case Nil
  then show ?case by simp
next
  case (Cons m ns)
  from Cons.prems(1) obtain b where b: "is_file t [m] = Inr b" by auto
  show ?case
  proof (cases "m = n")
    case True
    with assms(3) is_candidate [OF assms(4,5)] show ?thesis by simp
  next
    case False
    with Cons have "\<exists>ev. check_readme_loop t ns
        = Inr (CheckResult ''readme'' ''README existe'' 10 True ev)" by simp
    with b show ?thesis by auto
  qed
qed

text \<open>
  The converse: with distinct names in the root, a regular file named
  \<^verbatim>\<open>README.\<close> followed by at least one character (in any letter case) makes the check
  pass; one character is enough.
\<close>

lemma readme_with_extension_passes:
  assumes "tree r = Dir True True es" and "distinct (map fst es)"
    and "(n, File rd s) \<in> set es" and "ext \<noteq> []" and "upper n = ''README.'' @ ext"
  shows "\<exists>ev. check_readme r = Inr (CheckResult ''readme'' ''README existe'' 10 True ev)"
proof -
  have "\<exists>ev. check_readme_loop (Dir True True es) (map fst es)
          = Inr (CheckResult ''readme'' ''README existe'' 10 True ev)"
  proof (rule check_readme_loop_passes [OF _ _ _ assms(4,5)])
    show "\<forall>n \<in> set (map fst es). \<exists>b. is_file (Dir True True es) [n] = Inr b"
      using is_file_top_returns by blast
    show "n \<in> set (map fst es)" using assms(3) by force
    show "is_file (Dir True True es) [n] = Inr True"
      using assms(2,3) by (rule is_file_top_distinct)
  qed
  then show ?thesis
    by (simp add: check_readme_def assms(1) iterdir_def)
qed

lemma readme_x_passes:
  "check_readme readme_x = Inr (CheckResult ''readme'' ''README existe'' 10 True ''readme.x'')"
  by (simp add: check_readme_def readme_x_def fs_defs str_defs)

text \<open>
  C9. For every root, a directory that can be listed and searched, in which no top-level
  regular file is named \<^verbatim>\<open>README.\<close> followed by at least one character (in any letter
  case), the readme check returns \<open>passed = False\<close> with empty evidence. In particular
  regular files named \<^verbatim>\<open>README\<close> or \<^verbatim>\<open>README.\<close>, and files whose names go on after
  \<^verbatim>\<open>README\<close> with anything but a dot, do not make it pass: a pass requires at least one
  character after \<^verbatim>\<open>README.\<close>.
\<close>

theorem readme_without_extension_fails:
  assumes "tree r = Dir True True es"
    and "\<forall>(n, m) \<in> set es. (\<exists>rd s. m = File rd s) \<longrightarrow>
           \<not> (\<exists>ext. ext \<noteq> [] \<and> upper n = ''README.'' @ ext)"
  shows "check_readme r = Inr (CheckResult ''readme'' ''README existe'' 10 False [])"
proof -
  have "check_readme_loop (Dir True True es) (map fst es)
          = Inr (CheckResult ''readme'' ''README existe'' 10 False [])"
  proof (rule check_readme_loop_fails)
    show "\<forall>n \<in> set (map fst es). is_file (Dir True True es) [n] = Inr True \<longrightarrow>
             \<not> (\<exists>ext. ext \<noteq> [] \<and> upper n = ''README.'' @ ext)"
      using assms(2) by (auto dest!: is_file_top)
    show "\<forall>n \<in> set (map fst es). \<exists>b. is_file (Dir True True es) [n] = Inr b"
      using is_file_top_returns by blast
  qed
  then show ?thesis
    by (simp add: check_readme_def assms(1) iterdir_def)
qed

theorem readme_without_extension_fails_witness:
  "check_readme bare_readme = Inr (CheckResult ''readme'' ''README existe'' 10 False [])
   \<and> is_file (tree bare_readme) [''README''] = Inr True
   \<and> is_file (tree bare_readme) [''readme.''] = Inr True
   \<and> is_file (tree bare_readme) [''README-dev''] = Inr True"
proof -
  have t: "tree bare_readme = Dir True True
        [(''README'', File True ''text''), (''readme.'', File True []),
         (''README-dev'', File True []), (''notes.txt'', File True [])]"
    by (simp add: bare_readme_def)
  have "check_readme bare_readme = Inr (CheckResult ''readme'' ''README existe'' 10 False [])"
    by (rule readme_without_extension_fails [OF t]) (auto simp: str_defs)
  then show ?thesis by (simp add: bare_readme_def fs_defs)
qed

section \<open>The ci check on a directory entry\<close>

text \<open>
  C10. When \<^verbatim>\<open>.github/workflows\<close> is a listable directory whose only entry is a
  directory with a name of suffix \<^verbatim>\<open>.yml\<close> or \<^verbatim>\<open>.yaml\<close> (in any letter case), the ci
  check passes with that entry as evidence: the entry need not be a regular file.
\<close>

theorem ci_accepts_directory_entry:
  assumes "stat (tree r) [''.github'', ''workflows''] = Found (Dir True x [(d, Dir r' x' es')])"
    and "lower (suffix_of d) = ''.yml'' \<or> lower (suffix_of d) = ''.yaml''"
  shows "check_ci r = Inr (CheckResult ''ci'' ''CI configurado'' 15 True (''.github/workflows/'' @ d))"
  using assms by (auto simp: check_ci_def is_dir_def iterdir_def)

theorem ci_accepts_directory_entry_witness:
  "stat (tree workflows_subdir) [''.github'', ''workflows'', ''build.yml''] = Found (Dir True True [])
   \<and> is_file (tree workflows_subdir) [''.gitlab-ci.yml''] = Inr False
   \<and> check_ci workflows_subdir
       = Inr (CheckResult ''ci'' ''CI configurado'' 15 True ''.github/workflows/build.yml'')"
proof -
  have s: "stat (tree workflows_subdir) [''.github'', ''workflows'']
             = Found (Dir True True [(''build.yml'', Dir True True [])])"
    by (simp add: workflows_subdir_def)
  have y: "lower (suffix_of ''build.yml'') = ''.yml'' \<or> lower (suffix_of ''build.yml'') = ''.yaml''"
    by (simp add: str_defs)
  from ci_accepts_directory_entry [OF s y] show ?thesis
    by (simp add: workflows_subdir_def fs_defs)
qed

section \<open>Monotonicity of the score\<close>

lemma empty_repo_run: "run_all_checks empty_repo = Inr empty_repo_results"
  by (simp add: run_all_checks_def runners_def empty_repo_results_def empty_repo_def
      check_readme_def check_license_def check_codeowners_def check_ci_def check_ci_gitlab_def
      check_tests_def check_tests_scan_def check_linter_def check_docker_def check_security_def
      check_observability_def check_release_hygiene_def fs_defs)

lemma score_flip:
  assumes w: "map weight cs' = map weight cs"
    and i: "i < length cs" and f: "\<not> passed (cs ! i)" and p: "passed (cs' ! i)"
    and others: "\<forall>j < length cs. j \<noteq> i \<longrightarrow> passed (cs' ! j) = passed (cs ! j)"
  shows "compute_score cs' = compute_score cs + weight (cs ! i)"
proof -
  have len: "length cs' = length cs"
    using w by (metis length_map)
  have wj: "weight (cs' ! j) = weight (cs ! j)" if "j < length cs" for j
    using that w len by (metis nth_map)
  let ?A = "{j. j < length cs \<and> passed (cs ! j)}"
  have A': "{j. j < length cs' \<and> passed (cs' ! j)} = insert i ?A"
    using i f p others len by auto
  have fin: "finite ?A" by simp
  have notin: "i \<notin> ?A" using f by simp
  have "compute_score cs' = (\<Sum>j \<in> insert i ?A. weight (cs' ! j))"
    by (simp add: compute_score_def sum_list_filter_index A')
  also have "\<dots> = (\<Sum>j \<in> insert i ?A. weight (cs ! j))"
    by (rule sum.cong) (use i wj in auto)
  also have "\<dots> = weight (cs ! i) + (\<Sum>j \<in> ?A. weight (cs ! j))"
    using fin notin by (rule sum.insert)
  also have "(\<Sum>j \<in> ?A. weight (cs ! j)) = compute_score cs"
    by (simp add: compute_score_def sum_list_filter_index)
  finally show ?thesis by simp
qed

lemma tl_passed_same:
  assumes m: "map passed (tl xs) = map passed (tl ys)" and j: "j < length ys" "j \<noteq> 0"
  shows "passed (xs ! j) = passed (ys ! j)"
proof -
  from j obtain k where k: "j = Suc k" by (cases j) auto
  have len: "length (tl xs) = length (tl ys)" using m by (metis length_map)
  have ky: "k < length (tl ys)" using j k by simp
  then have kx: "k < length (tl xs)" using len by simp
  have "passed (tl xs ! k) = passed (tl ys ! k)"
    using m kx ky by (metis nth_map)
  then show ?thesis
    using kx ky k by (simp add: nth_tl)
qed

text \<open>
  C7. Take a repository and any other state of it, in particular the repository extended
  by one file. If the checks complete on both, one check that failed on the first passes
  on the second and every other check has the same outcome, then the score of the second
  is at least the score of the first: it is larger by the weight of that check.
\<close>

theorem score_monotone_under_new_pass:
  assumes "run_all_checks r = Inr cs" and "run_all_checks r' = Inr cs'"
    and "i < length cs" and "\<not> passed (cs ! i)" and "passed (cs' ! i)"
    and "\<forall>j < length cs. j \<noteq> i \<longrightarrow> passed (cs' ! j) = passed (cs ! j)"
  shows "compute_score cs \<le> compute_score cs'
         \<and> compute_score cs' = compute_score cs + weight (cs ! i)"
proof -
  have "map weight cs' = map weight cs"
    by (simp add: run_all_checks_weights [OF assms(1)] run_all_checks_weights [OF assms(2)])
  from score_flip [OF this assms(3-6)]
  have eq: "compute_score cs' = compute_score cs + weight (cs ! i)" .
  have "0 \<le> weight (cs ! i)"
    using run_all_checks_weight_nonneg [OF assms(1)] assms(3) by simp
  with eq show ?thesis by simp
qed

theorem score_monotone_under_new_pass_witness:
  "run_all_checks empty_repo = Inr empty_repo_results
   \<and> run_all_checks readme_only = Inr readme_only_results
   \<and> \<not> passed (empty_repo_results ! 0) \<and> passed (readme_only_results ! 0)
   \<and> compute_score empty_repo_results = 0 \<and> compute_score readme_only_results = 10
   \<and> compute_score empty_repo_results \<le> compute_score readme_only_results"
proof -
  have a: "(0::nat) < length empty_repo_results" by (simp add: empty_repo_results_def)
  have b: "\<not> passed (empty_repo_results ! 0)" by (simp add: empty_repo_results_def)
  have c: "passed (readme_only_results ! 0)" by (simp add: readme_only_results_def)
  have d: "\<forall>j < length empty_repo_results. j \<noteq> 0 \<longrightarrow>
             passed (readme_only_results ! j) = passed (empty_repo_results ! j)"
  proof (intro allI impI)
    fix j assume j: "j < length empty_repo_results" "j \<noteq> 0"
    have m: "map passed (tl readme_only_results) = map passed (tl empty_repo_results)"
      by (simp add: empty_repo_results_def readme_only_results_def)
    from tl_passed_same [OF m] j
    show "passed (readme_only_results ! j) = passed (empty_repo_results ! j)" by simp
  qed
  have e: "compute_score empty_repo_results = 0"
    by (simp add: compute_score_def empty_repo_results_def)
  have f: "compute_score readme_only_results = 10"
    by (simp add: compute_score_def readme_only_results_def)
  from score_monotone_under_new_pass [OF empty_repo_run readme_only_run a b c d]
    empty_repo_run readme_only_run b c e f
  show ?thesis by simp
qed

section \<open>The gate\<close>

text \<open>
  On a root that is a directory that can be listed, when the ten checks complete and the
  report is printed, nothing else is written on the output stream; without a threshold
  \<open>main\<close> returns 0 whatever the score; with a threshold \<open>n\<close> it returns 1 when the score
  is below \<open>n\<close>, after printing on the error stream the message that names the score and
  \<open>n\<close>, and 0 otherwise.
\<close>

lemma gate_after_rendering:
  assumes valid: "t = Dir True x es"
    and run: "run_all_checks \<lparr>root_parts = rp, tree = t\<rparr> = Inr cs"
    and rep: "rep = build_report \<lparr>root_parts = rp, tree = t\<rparr> now cs (compute_score cs)"
    and printed: "(if out args = Text then output_text dash rep else output_json rep) = Inr printed"
  shows "(min_score args = None \<longrightarrow> main args now dash rp (Some t) = Inr (0, printed))
       \<and> (\<forall>n. min_score args = Some n \<and> compute_score cs < n \<longrightarrow>
             main args now dash rp (Some t)
               = Inr (1, printed @ [Err (gate_message (compute_score cs) n)]))
       \<and> (\<forall>n. min_score args = Some n \<and> n \<le> compute_score cs \<longrightarrow>
             main args now dash rp (Some t) = Inr (0, printed))"
  using assms
  by (auto simp: main_def is_dir_def iterdir_def Let_def)

lemma readme_only_record:
  "\<lparr>root_parts = root_parts readme_only, tree = tree readme_only\<rparr> = readme_only"
  by (simp add: readme_only_def)

lemma readme_only_report:
  "build_report readme_only sample_now readme_only_results 10 = readme_only_rendered"
  by (simp add: build_report_def readme_only_rendered_def)
     (simp add: readme_only_def readme_only_results_def)

lemma readme_only_report_encodable:
  "output_json readme_only_rendered = Inr [Out_json readme_only_rendered]"
proof -
  have "encodable ''/home/repo''"
    by (simp add: encodable_def is_ascii_def)
  moreover have "encodable sample_now"
    by (simp add: encodable_def is_ascii_def sample_now_def)
  moreover have "list_all (\<lambda>c. encodable (id_str c) \<and> encodable (name c) \<and> encodable (evidence c))
      readme_only_results"
    by (simp add: encodable_def is_ascii_def readme_only_results_def)
  ultimately show ?thesis
    by (simp add: output_json_def readme_only_rendered_def)
qed

lemma gate_on_readme_only:
  "main gate_args sample_now True (root_parts readme_only) (Some (tree readme_only))
     = Inr (1, [Out_json readme_only_rendered, Err (gate_message 10 50)])
   \<and> gate_message 10 50 = ''Score 10 por debajo del m'' @ [CHR 0xED] @ ''nimo 50.''
   \<and> main plain_args sample_now True (root_parts readme_only) (Some (tree readme_only))
     = Inr (0, [Out_json readme_only_rendered])"
proof -
  have t: "tree readme_only = Dir True True [(''README.md'', File True ''hello'')]"
    by (simp add: readme_only_def)
  have run: "run_all_checks \<lparr>root_parts = root_parts readme_only, tree = tree readme_only\<rparr>
      = Inr readme_only_results"
    by (simp only: readme_only_record readme_only_run)
  have sc: "compute_score readme_only_results = 10"
    by (simp add: compute_score_def readme_only_results_def)
  have rep: "readme_only_rendered
      = build_report \<lparr>root_parts = root_parts readme_only, tree = tree readme_only\<rparr>
          sample_now readme_only_results (compute_score readme_only_results)"
    by (simp only: readme_only_record sc readme_only_report)
  have pg: "(if out gate_args = Text then output_text True readme_only_rendered
             else output_json readme_only_rendered) = Inr [Out_json readme_only_rendered]"
    by (simp add: gate_args_def readme_only_report_encodable)
  have pp: "(if out plain_args = Text then output_text True readme_only_rendered
             else output_json readme_only_rendered) = Inr [Out_json readme_only_rendered]"
    by (simp add: plain_args_def readme_only_report_encodable)
  have msg: "gate_message 10 50 = ''Score 10 por debajo del m'' @ [CHR 0xED] @ ''nimo 50.''"
    by (simp add: gate_message_def str_int_def digit_char_def)
  from gate_after_rendering [OF t run rep pg]
       gate_after_rendering [OF t run rep pp]
  show ?thesis
    by (simp add: gate_args_def plain_args_def sc msg)
qed

text \<open>
  The text rendering on an output stream that cannot encode the dash of its first line
  ends in UnicodeEncodeError, after the checks have completed.
\<close>

lemma main_raises_when_print_raises:
  "main text_args sample_now False (root_parts readme_only) (Some (tree readme_only))
     = Inl UnicodeEncodeError"
proof -
  have run: "run_all_checks \<lparr>root_parts = root_parts readme_only, tree = tree readme_only\<rparr>
      = Inr readme_only_results"
    by (simp only: readme_only_record readme_only_run)
  have "is_dir (tree readme_only) [] = Inr True"
    by (simp add: readme_only_def fs_defs)
  moreover have "iterdir (tree readme_only) [] = Inr [''README.md'']"
    by (simp add: readme_only_def fs_defs)
  ultimately show ?thesis
    by (simp add: main_def run output_text_def text_args_def)
qed

text \<open>
  C3. The specification has every run on a valid directory render the report and then
  return 0 when no threshold is given. On \<open>closed_workflows\<close> the root is a directory
  that can be listed, so the three guards of \<open>main\<close> let it through; \<open>check_ci\<close> then
  raises PermissionError, nothing catches it, and \<open>main\<close> ends in the exception: no
  report is rendered and no exit status 0 is returned.
\<close>

theorem main_raises_on_valid_directory:
  "is_dir (tree closed_workflows) [] = Inr True
   \<and> iterdir (tree closed_workflows) [] = Inr [''README.md'', ''.github'']
   \<and> main plain_args sample_now True (root_parts closed_workflows)
        (Some (tree closed_workflows))
       = Inl PermissionError"
proof -
  have "\<lparr>root_parts = root_parts closed_workflows, tree = tree closed_workflows\<rparr> = closed_workflows"
    by (simp add: closed_workflows_def)
  then have "run_all_checks \<lparr>root_parts = root_parts closed_workflows, tree = tree closed_workflows\<rparr>
      = Inl PermissionError"
    by (simp only: closed_workflows_run)
  moreover have "is_dir (tree closed_workflows) [] = Inr True"
    by (simp add: closed_workflows_def fs_defs)
  moreover have "iterdir (tree closed_workflows) [] = Inr [''README.md'', ''.github'']"
    by (simp add: closed_workflows_def fs_defs)
  ultimately show ?thesis
    by (simp add: main_def)
qed

section \<open>Evidence of the results\<close>

text \<open>
  Every result that a check returns has empty evidence exactly when \<open>passed\<close> is false:
  the evidence of a pass is a name or a path with a non-empty component. A failed read
  inside the linter, observability and release loops goes on with the next candidate.
\<close>

lemma path_str_nonempty: "c \<in> set p \<Longrightarrow> c \<noteq> [] \<Longrightarrow> path_str p \<noteq> []"
  by (induction p rule: path_str.induct) auto

lemma path_name_snoc: "path_name (pre @ [n]) = n"
  by (simp add: path_name_def)

lemma path_name_nonempty: "path_name p \<noteq> [] \<Longrightarrow> path_str p \<noteq> []"
proof -
  assume a: "path_name p \<noteq> []"
  then have ne: "p \<noteq> []" by (auto simp: path_name_def)
  then have "last p \<in> set p" by simp
  moreover have "last p \<noteq> []" using a ne by (simp add: path_name_def)
  ultimately show ?thesis by (rule path_str_nonempty)
qed

lemma lower_nonempty: "lower s \<noteq> [] \<Longrightarrow> s \<noteq> []"
  by (auto simp: lower_def)

lemma suffix_of_nonempty: "suffix_of nm \<noteq> [] \<Longrightarrow> nm \<noteq> []"
  by (auto simp: suffix_of_def has_suffix_def)

lemma stem_of_nonempty: "stem_of nm \<noteq> [] \<Longrightarrow> nm \<noteq> []"
  by (auto simp: stem_of_def has_suffix_def)

lemma str_in_nonempty: "str_in n h \<Longrightarrow> n \<noteq> [] \<Longrightarrow> h \<noteq> []"
  by (cases h) auto

lemma slashes_nonempty: "s \<noteq> [] \<Longrightarrow> slashes s \<noteq> []"
  by (simp add: slashes_def)

lemma names_ok_entries_fst: "names_ok_entries es \<Longrightarrow> e \<in> set es \<Longrightarrow> fst e \<noteq> []"
  by (induction es) auto

lemma rglob_last_nonempty:
  "names_ok t \<Longrightarrow> p \<in> set (rglob pre t) \<Longrightarrow> path_name p \<noteq> []"
  "names_ok_entries es \<Longrightarrow> p \<in> set (rglob_subdirs pre es) \<Longrightarrow> path_name p \<noteq> []"
proof (induction pre t and pre es arbitrary: p and p rule: rglob_rglob_subdirs.induct)
  case (1 pre r x es)
  from "1.prems" have ok: "names_ok_entries es" by simp
  from "1.prems" consider (top) "r" "p \<in> set (map (\<lambda>e. pre @ [fst e]) es)"
    | (sub) "r" "x" "p \<in> set (rglob_subdirs pre es)"
    by (auto split: if_splits)
  then show ?case
  proof cases
    case top
    then obtain e where "e \<in> set es" "p = pre @ [fst e]" by auto
    with ok show ?thesis by (simp add: path_name_snoc names_ok_entries_fst)
  next
    case sub
    with "1.IH" ok show ?thesis by simp
  qed
qed auto

lemma walk_loop_subset:
  "walk_loop r xs acc = Inr ps \<Longrightarrow> set ps \<subseteq> set acc \<union> set xs"
proof (induction xs arbitrary: acc)
  case Nil
  then show ?case by auto
next
  case (Cons p xs)
  show ?case
  proof (cases "is_file (tree r) p")
    case (Inl e)
    with Cons.prems show ?thesis by (auto split: if_splits)
  next
    case (Inr f)
    with Cons.prems Cons.IH show ?thesis
      by (fastforce split: if_splits)
  qed
qed

lemma walk_repo_names:
  assumes "walk_repo r = Inr ps" and "names_ok (tree r)" and "p \<in> set ps"
  shows "path_str p \<noteq> []"
proof -
  from walk_loop_subset [of r "rglob [] (tree r)" "[]" ps] assms(1,3)
  have "p \<in> set (rglob [] (tree r))" by (auto simp: walk_repo_def)
  from rglob_last_nonempty(1) [OF assms(2) this] show ?thesis
    by (rule path_name_nonempty)
qed


lemma check_readme_loop_evidence:
  "check_readme_loop t ns = Inr c \<Longrightarrow> (passed c \<longleftrightarrow> evidence c \<noteq> [])"
  by (induction ns) (auto split: sum.splits if_splits simp: upper_def startswith_def)

lemma check_readme_evidence: "check_readme r = Inr c \<Longrightarrow> (passed c \<longleftrightarrow> evidence c \<noteq> [])"
  by (auto simp: check_readme_def split: sum.splits dest: check_readme_loop_evidence)

lemma check_license_loop_evidence:
  "check_license_loop t ns = Inr c \<Longrightarrow> (passed c \<longleftrightarrow> evidence c \<noteq> [])"
  by (induction ns) (auto split: sum.splits if_splits simp: upper_def startswith_def)

lemma check_license_evidence: "check_license r = Inr c \<Longrightarrow> (passed c \<longleftrightarrow> evidence c \<noteq> [])"
  by (auto simp: check_license_def split: sum.splits dest: check_license_loop_evidence)

lemma check_codeowners_loop_evidence:
  "check_codeowners_loop t ps = Inr c \<Longrightarrow> \<forall>p \<in> set ps. path_str p \<noteq> [] \<Longrightarrow>
     (passed c \<longleftrightarrow> evidence c \<noteq> [])"
  by (induction ps) (auto split: sum.splits if_splits)

lemma check_codeowners_evidence:
  "check_codeowners r = Inr c \<Longrightarrow> (passed c \<longleftrightarrow> evidence c \<noteq> [])"
  unfolding check_codeowners_def by (erule check_codeowners_loop_evidence) simp

lemma check_ci_loop_evidence: "check_ci_loop fs = Some c \<Longrightarrow> passed c \<and> evidence c \<noteq> []"
  by (induction fs) (auto split: if_splits)

lemma check_ci_gitlab_evidence:
  "check_ci_gitlab t = Inr c \<Longrightarrow> (passed c \<longleftrightarrow> evidence c \<noteq> [])"
  by (auto simp: check_ci_gitlab_def split: sum.splits if_splits)

lemma check_ci_evidence: "check_ci r = Inr c \<Longrightarrow> (passed c \<longleftrightarrow> evidence c \<noteq> [])"
  by (auto simp: check_ci_def split: sum.splits if_splits option.splits
      dest: check_ci_loop_evidence check_ci_gitlab_evidence)

lemma check_tests_files_evidence:
  "check_tests_files ps = Some c \<Longrightarrow> passed c \<and> evidence c \<noteq> []"
proof (induction ps)
  case Nil
  then show ?case by simp
next
  case (Cons rel ps)
  show ?case
  proof (cases "''__tests__'' \<in> set rel")
    case True
    then have "path_str rel \<noteq> []" by (rule path_str_nonempty) simp
    with True Cons.prems show ?thesis by auto
  next
    case False
    show ?thesis
    proof (cases "list_ex (\<lambda>x. x \<in> set rel) [''test'', ''tests'', ''spec'', ''specs'', ''__tests__'']")
      case True
      then obtain x where "x \<in> set rel" "x \<noteq> []" by auto
      then have "path_str rel \<noteq> []" by (rule path_str_nonempty)
      with Cons show ?thesis by (auto split: if_splits)
    next
      case no: False
      with False Cons show ?thesis by (auto split: if_splits)
    qed
  qed
qed

lemma check_tests_anywhere_evidence:
  "check_tests_anywhere r ps = Some c \<Longrightarrow> \<forall>p \<in> set ps. path_str p \<noteq> [] \<Longrightarrow>
     passed c \<and> evidence c \<noteq> []"
  by (induction ps) (auto split: if_splits)

lemma check_tests_scan_evidence:
  assumes "\<forall>p \<in> set ps. path_str p \<noteq> []"
  shows "passed (check_tests_scan r ps) \<longleftrightarrow> evidence (check_tests_scan r ps) \<noteq> []"
  using assms
  by (auto simp: check_tests_scan_def split: option.splits
      dest: check_tests_files_evidence check_tests_anywhere_evidence)

lemma check_tests_evidence:
  assumes "check_tests r = Inr c" and "names_ok (tree r)"
  shows "passed c \<longleftrightarrow> evidence c \<noteq> []"
proof -
  obtain ps where ps: "walk_repo r = Inr ps" using walk_repo_returns by blast
  have "\<forall>p \<in> set ps. path_str p \<noteq> []"
    using walk_repo_names [OF ps assms(2)] by blast
  from check_tests_scan_evidence [OF this, of r] assms(1) ps show ?thesis
    by (auto simp: check_tests_def split: sum.splits if_splits)
qed

lemma name_hit:
  assumes "lower (path_name p) = x \<or> startswith (lower (path_name p)) x" and "x \<noteq> []"
  shows "slashes (path_str p) \<noteq> []"
proof -
  from assms have "lower (path_name p) \<noteq> []" by (auto simp: startswith_def)
  then have "path_name p \<noteq> []" by (rule lower_nonempty)
  then show ?thesis by (intro slashes_nonempty path_name_nonempty)
qed

lemma check_linter_loop_evidence:
  "passed (check_linter_loop t ps) \<longleftrightarrow> evidence (check_linter_loop t ps) \<noteq> []"
proof (induction ps)
  case Nil
  show ?case by simp
next
  case (Cons p ps)
  have hit: "lower (path_name p) = x \<Longrightarrow> x \<noteq> [] \<Longrightarrow> slashes (path_str p) \<noteq> []" for x
    using name_hit [of p x] by simp
  have hit': "startswith (lower (path_name p)) x \<Longrightarrow> x \<noteq> [] \<Longrightarrow> slashes (path_str p) \<noteq> []" for x
    using name_hit [of p x] by simp
  show ?case
    using Cons.IH hit [of "''.editorconfig''"] hit [of "''ruff.toml''"] hit [of "''stylecop.json''"]
      hit [of "''pyproject.toml''"] hit' [of "''.eslintrc''"]
    by (auto split: sum.splits)
qed

lemma check_linter_evidence: "check_linter r = Inr c \<Longrightarrow> (passed c \<longleftrightarrow> evidence c \<noteq> [])"
  by (auto simp: check_linter_def check_linter_loop_evidence split: sum.splits)

lemma check_docker_loop_evidence:
  "check_docker_loop t ns = Inr c \<Longrightarrow> \<forall>n \<in> set ns. n \<noteq> [] \<Longrightarrow>
     (passed c \<longleftrightarrow> evidence c \<noteq> [])"
  by (induction ns) (auto split: sum.splits if_splits)

lemma check_docker_evidence: "check_docker r = Inr c \<Longrightarrow> (passed c \<longleftrightarrow> evidence c \<noteq> [])"
  unfolding check_docker_def by (erule check_docker_loop_evidence) simp

lemma check_security_evidence: "check_security r = Inr c \<Longrightarrow> (passed c \<longleftrightarrow> evidence c \<noteq> [])"
  by (auto simp: check_security_def split: sum.splits if_splits)

lemma suffix_hit: "lower (suffix_of (path_name p)) = x \<Longrightarrow> x \<noteq> [] \<Longrightarrow> path_str p \<noteq> []"
  by (metis lower_nonempty suffix_of_nonempty path_name_nonempty)

lemma parts_hit: "observability_parts_hit t p \<Longrightarrow> path_str p \<noteq> []"
proof -
  assume "observability_parts_hit t p"
  then have "''config'' \<in> set p \<or> ''conf'' \<in> set p \<or> ''workflows'' \<in> set p"
    by (auto simp: observability_parts_hit_def split: if_splits)
  then obtain x where "x \<in> set p" "x \<noteq> []" by auto
  then show ?thesis by (rule path_str_nonempty)
qed

lemma check_observability_loop_evidence:
  "passed (check_observability_loop t ps) \<longleftrightarrow> evidence (check_observability_loop t ps) \<noteq> []"
proof (induction ps)
  case Nil
  show ?case by simp
next
  case (Cons p ps)
  have "path_str p \<noteq> []"
    if "lower (suffix_of (path_name p))
          \<in> set [''.json'', ''.toml'', ''.yml'', ''.yaml'', ''.txt'', ''.xml'', ''.gradle'', ''.mod'']"
    using that suffix_hit [of p] by auto
  with Cons.IH parts_hit [of t p] show ?case
    by (simp split: sum.splits)
qed

lemma check_observability_evidence:
  "check_observability r = Inr c \<Longrightarrow> (passed c \<longleftrightarrow> evidence c \<noteq> [])"
  by (auto simp: check_observability_def check_observability_loop_evidence split: sum.splits)

lemma release_manifests_evidence:
  "release_manifests t ns = Inr (Some c) \<Longrightarrow> passed c \<and> evidence c \<noteq> []"
  by (induction ns) (auto split: sum.splits if_splits)

lemma release_csproj_evidence:
  "release_csproj t ps = Inr c \<Longrightarrow> (passed c \<longleftrightarrow> evidence c \<noteq> [])"
proof (induction ps)
  case Nil
  then show ?case by auto
next
  case (Cons p ps)
  have "lower (suffix_of (path_name p)) = ''.csproj'' \<Longrightarrow> path_str p \<noteq> []"
    using suffix_hit [of p "''.csproj''"] by simp
  with Cons show ?case
    by (auto split: sum.splits if_splits)
qed

lemma check_release_hygiene_evidence:
  "check_release_hygiene r = Inr c \<Longrightarrow> (passed c \<longleftrightarrow> evidence c \<noteq> [])"
  by (auto simp: check_release_hygiene_def split: sum.splits if_splits option.splits
      dest: release_manifests_evidence release_csproj_evidence)

lemma evidence_iff_passed:
  assumes "run_all_checks r = Inr cs" and "names_ok (tree r)" and "c \<in> set cs"
  shows "passed c \<longleftrightarrow> evidence c \<noteq> []"
proof -
  from assms(1) obtain c1 c2 c3 c4 c5 c6 c7 c8 c9 c10 where
    cs: "cs = [c1, c2, c3, c4, c5, c6, c7, c8, c9, c10]" and
    "check_readme r = Inr c1" "check_license r = Inr c2" "check_codeowners r = Inr c3"
    "check_ci r = Inr c4" "check_tests r = Inr c5" "check_linter r = Inr c6"
    "check_docker r = Inr c7" "check_security r = Inr c8" "check_observability r = Inr c9"
    "check_release_hygiene r = Inr c10"
    by (auto simp: run_all_checks_def runners_def split: sum.splits)
  then show ?thesis
    using assms(2,3) check_readme_evidence [of r c1] check_license_evidence [of r c2]
      check_codeowners_evidence [of r c3] check_ci_evidence [of r c4]
      check_tests_evidence [of r c5] check_linter_evidence [of r c6]
      check_docker_evidence [of r c7] check_security_evidence [of r c8]
      check_observability_evidence [of r c9] check_release_hygiene_evidence [of r c10]
    by auto
qed

section \<open>The checks complete on accessible trees\<close>

text \<open>
  When the root is a directory and every directory of the tree can be listed and
  searched, no \<^verbatim>\<open>stat\<close> is denied, every listing succeeds, and all ten checks return.
  This is a statement about the trees of this model: without symbolic links, and no
  deeper than the recursion limit leaves to \<^verbatim>\<open>rglob\<close>.
\<close>

lemma map_of_accessible:
  "accessible_entries es \<Longrightarrow> map_of es c = Some m \<Longrightarrow> accessible m"
  by (induction es) (auto split: if_splits)

lemma stat_accessible:
  "accessible t \<Longrightarrow> stat t p \<noteq> Denied \<and> (\<forall>n. stat t p = Found n \<longrightarrow> accessible n)"
proof (induction t p rule: stat.induct)
  case (2 r x es c cs)
  then show ?case
    by (auto split: option.splits dest: map_of_accessible)
qed auto

lemma is_file_returns: "accessible t \<Longrightarrow> \<exists>b. is_file t p = Inr b"
  using stat_accessible [of t p]
  by (auto simp: is_file_def split: stat_result.splits node.splits)

lemma is_dir_returns: "accessible t \<Longrightarrow> \<exists>b. is_dir t p = Inr b"
  using stat_accessible [of t p]
  by (auto simp: is_dir_def split: stat_result.splits node.splits)

lemma iterdir_returns:
  "accessible t \<Longrightarrow> is_dir t p = Inr True \<Longrightarrow> \<exists>ns. iterdir t p = Inr ns"
  using stat_accessible [of t p]
  by (auto simp: is_dir_def iterdir_def split: stat_result.splits node.splits)

lemma check_readme_loop_returns: "accessible t \<Longrightarrow> \<exists>c. check_readme_loop t ns = Inr c"
proof (induction ns)
  case (Cons n ns)
  from is_file_returns [OF Cons.prems, of "[n]"] obtain b where "is_file t [n] = Inr b" by blast
  with Cons show ?case by auto
qed simp

lemma check_license_loop_returns: "accessible t \<Longrightarrow> \<exists>c. check_license_loop t ns = Inr c"
proof (induction ns)
  case (Cons n ns)
  from is_file_returns [OF Cons.prems, of "[n]"] obtain b where "is_file t [n] = Inr b" by blast
  with Cons show ?case by auto
qed simp

lemma check_codeowners_loop_returns: "accessible t \<Longrightarrow> \<exists>c. check_codeowners_loop t ps = Inr c"
proof (induction ps)
  case (Cons p ps)
  from is_file_returns [OF Cons.prems, of p] obtain b where "is_file t p = Inr b" by blast
  with Cons show ?case by auto
qed simp

lemma check_docker_loop_returns: "accessible t \<Longrightarrow> \<exists>c. check_docker_loop t ns = Inr c"
proof (induction ns)
  case (Cons n ns)
  from is_file_returns [OF Cons.prems, of "[n]"] obtain b where "is_file t [n] = Inr b" by blast
  with Cons show ?case by auto
qed simp

lemma release_manifests_returns: "accessible t \<Longrightarrow> \<exists>c. release_manifests t ns = Inr c"
proof (induction ns)
  case (Cons n ns)
  from is_file_returns [OF Cons.prems, of "[n]"] obtain b where "is_file t [n] = Inr b" by blast
  with Cons show ?case by (auto split: sum.splits)
qed simp

lemma release_csproj_returns: "accessible t \<Longrightarrow> \<exists>c. release_csproj t ps = Inr c"
proof (induction ps)
  case (Cons p ps)
  from is_file_returns [OF Cons.prems, of p] obtain b where "is_file t p = Inr b" by blast
  with Cons show ?case by (auto split: sum.splits)
qed simp

lemma check_readme_returns:
  assumes "accessible (tree r)" and "is_dir (tree r) [] = Inr True"
  shows "\<exists>c. check_readme r = Inr c"
  using iterdir_returns [OF assms] check_readme_loop_returns [OF assms(1)]
  by (auto simp: check_readme_def)

lemma check_license_returns:
  assumes "accessible (tree r)" and "is_dir (tree r) [] = Inr True"
  shows "\<exists>c. check_license r = Inr c"
  using iterdir_returns [OF assms] check_license_loop_returns [OF assms(1)]
  by (auto simp: check_license_def)

lemma check_codeowners_returns: "accessible (tree r) \<Longrightarrow> \<exists>c. check_codeowners r = Inr c"
  unfolding check_codeowners_def by (rule check_codeowners_loop_returns)

lemma check_ci_gitlab_returns: "accessible t \<Longrightarrow> \<exists>c. check_ci_gitlab t = Inr c"
  using is_file_returns [of t "[''.gitlab-ci.yml'']"] by (auto simp: check_ci_gitlab_def)

lemma check_ci_returns:
  assumes "accessible (tree r)"
  shows "\<exists>c. check_ci r = Inr c"
proof -
  from is_dir_returns [OF assms] obtain d where d: "is_dir (tree r) [''.github'', ''workflows''] = Inr d"
    by blast
  show ?thesis
  proof (cases d)
    case True
    with d have "is_dir (tree r) [''.github'', ''workflows''] = Inr True" by simp
    from iterdir_returns [OF assms this] obtain ns
      where "iterdir (tree r) [''.github'', ''workflows''] = Inr ns" by blast
    with d True check_ci_gitlab_returns [OF assms] show ?thesis
      by (auto simp: check_ci_def split: option.splits)
  next
    case False
    with d check_ci_gitlab_returns [OF assms] show ?thesis by (auto simp: check_ci_def)
  qed
qed

lemma check_tests_returns:
  assumes "accessible (tree r)"
  shows "\<exists>c. check_tests r = Inr c"
proof -
  obtain ps where "walk_repo r = Inr ps" using walk_repo_returns by blast
  moreover obtain d1 where "is_dir (tree r) [''tests''] = Inr d1"
    using is_dir_returns [OF assms] by blast
  moreover obtain d2 where "is_dir (tree r) [''test''] = Inr d2"
    using is_dir_returns [OF assms] by blast
  ultimately show ?thesis by (auto simp: check_tests_def)
qed

lemma check_linter_returns: "\<exists>c. check_linter r = Inr c"
  using walk_repo_returns [of r] by (auto simp: check_linter_def)

lemma check_observability_returns: "\<exists>c. check_observability r = Inr c"
  using walk_repo_returns [of r] by (auto simp: check_observability_def)

lemma check_docker_returns: "accessible (tree r) \<Longrightarrow> \<exists>c. check_docker r = Inr c"
  unfolding check_docker_def by (rule check_docker_loop_returns)

lemma check_security_returns:
  assumes "accessible (tree r)"
  shows "\<exists>c. check_security r = Inr c"
proof -
  obtain a where "is_file (tree r) [''SECURITY.md''] = Inr a"
    using is_file_returns [OF assms] by blast
  moreover obtain b where "is_file (tree r) [''.github'', ''dependabot.yml''] = Inr b"
    using is_file_returns [OF assms] by blast
  ultimately show ?thesis by (auto simp: check_security_def)
qed

lemma check_release_hygiene_returns:
  assumes "accessible (tree r)"
  shows "\<exists>c. check_release_hygiene r = Inr c"
proof -
  obtain a where a: "is_file (tree r) [''CHANGELOG.md''] = Inr a"
    using is_file_returns [OF assms] by blast
  obtain m where m: "release_manifests (tree r) [''package.json'', ''pyproject.toml''] = Inr m"
    using release_manifests_returns [OF assms] by blast
  obtain ps where ps: "walk_repo r = Inr ps" using walk_repo_returns by blast
  obtain c where c: "release_csproj (tree r) ps = Inr c"
    using release_csproj_returns [OF assms] by blast
  from a m ps c show ?thesis
    by (auto simp: check_release_hygiene_def split: option.splits)
qed

lemma checks_complete_when_accessible:
  assumes "accessible (tree r)" and "is_dir (tree r) [] = Inr True"
  shows "\<exists>cs. run_all_checks r = Inr cs"
  using check_readme_returns [OF assms] check_license_returns [OF assms]
    check_codeowners_returns [OF assms(1)] check_ci_returns [OF assms(1)]
    check_tests_returns [OF assms(1)] check_linter_returns [of r]
    check_docker_returns [OF assms(1)] check_security_returns [OF assms(1)]
    check_observability_returns [of r] check_release_hygiene_returns [OF assms(1)]
  by (auto simp: run_all_checks_def runners_def)

end
